theory Spec2Isabelle
  imports Main
begin

section \<open>JSON-like values and the Python builtins the validator relies on\<close>

text \<open>
  The validator of \<^verbatim>\<open>strategy_validator.py\<close> works on whatever \<^verbatim>\<open>json.loads\<close>
  returns: \<^verbatim>\<open>None\<close>, booleans, unbounded integers, floats, strings, lists and
  dictionaries. A dictionary is kept as an association list read with \<open>map_of\<close>, so the
  order in which the sanitizer writes its keys is visible. Strings are byte strings: a code
  point beyond ASCII is carried as its UTF-8 bytes.

  A float is kept as a mantissa and a binary exponent (\<open>Finite m e\<close> stands for
  \<open>m * 2 ^ e\<close>), or one of the three special values that \<^verbatim>\<open>json.loads\<close> accepts.
\<close>

datatype pyfloat = Finite int int | PosInf | NegInf | NaN

datatype json =
    JNone
  | JBool bool
  | JInt int
  | JFloat pyfloat
  | JStr string
  | JList "json list"
  | JDict "(string \<times> json) list"

datatype py_error = AttributeError | TypeError | ValueError | OverflowError | KeyError

text \<open>
  The builtins whose results depend on Python's number parsing and printing are taken as
  parameters: \<^verbatim>\<open>str(v)\<close> of a value that is not a string, \<^verbatim>\<open>float(i)\<close> of an
  integer (which rounds, and raises \<^verbatim>\<open>OverflowError\<close> on a large one),
  \<^verbatim>\<open>float(s)\<close> and \<^verbatim>\<open>int(s)\<close> of a string (which raise \<^verbatim>\<open>ValueError\<close> on
  a malformed one), and \<^verbatim>\<open>s.lower()\<close> of a string that is not all ASCII. Every theorem
  below holds for any behaviour of these five.
\<close>

record builtins =
  py_repr :: "json \<Rightarrow> string"
  py_float_of_int :: "int \<Rightarrow> py_error + pyfloat"
  py_float_of_str :: "string \<Rightarrow> py_error + pyfloat"
  py_int_of_str :: "string \<Rightarrow> py_error + int"
  py_lower_unicode :: "string \<Rightarrow> string"

definition py_str :: "builtins \<Rightarrow> json \<Rightarrow> string" where
  \<comment> \<open>\<^verbatim>\<open>str(v)\<close>, also what an f-string prints: a string is itself.\<close>
  "py_str B v = (case v of JStr s \<Rightarrow> s | _ \<Rightarrow> py_repr B v)"

definition int_of_float :: "pyfloat \<Rightarrow> py_error + int" where
  \<comment> \<open>\<^verbatim>\<open>int(f)\<close> truncates towards zero; it raises on the special values.\<close>
  "int_of_float f =
     (case f of
        Finite m e \<Rightarrow>
          Inr (if 0 \<le> e then m * 2 ^ nat e else sgn m * (\<bar>m\<bar> div 2 ^ nat (- e)))
      | PosInf \<Rightarrow> Inl OverflowError
      | NegInf \<Rightarrow> Inl OverflowError
      | NaN \<Rightarrow> Inl ValueError)"

definition py_int :: "builtins \<Rightarrow> json \<Rightarrow> py_error + int" where
  \<comment> \<open>The builtin \<^verbatim>\<open>int(v)\<close>.\<close>
  "py_int B v =
     (case v of
        JInt i \<Rightarrow> Inr i
      | JBool b \<Rightarrow> Inr (if b then 1 else 0)
      | JFloat f \<Rightarrow> int_of_float f
      | JStr s \<Rightarrow> py_int_of_str B s
      | _ \<Rightarrow> Inl TypeError)"

definition py_float :: "builtins \<Rightarrow> json \<Rightarrow> py_error + pyfloat" where
  \<comment> \<open>The builtin \<^verbatim>\<open>float(v)\<close>.\<close>
  "py_float B v =
     (case v of
        JInt i \<Rightarrow> py_float_of_int B i
      | JBool b \<Rightarrow> py_float_of_int B (if b then 1 else 0)
      | JFloat f \<Rightarrow> Inr f
      | JStr s \<Rightarrow> py_float_of_str B s
      | _ \<Rightarrow> Inl TypeError)"

definition as_int :: "json \<Rightarrow> int option" where
  \<comment> \<open>The integer behind a value with \<^verbatim>\<open>isinstance(v, int)\<close>; \<^verbatim>\<open>bool\<close> is a
      subclass of \<^verbatim>\<open>int\<close>.\<close>
  "as_int v = (case v of JInt i \<Rightarrow> Some i | JBool b \<Rightarrow> Some (if b then 1 else 0) | _ \<Rightarrow> None)"

definition is_int :: "json \<Rightarrow> bool" where
  "is_int v = (as_int v \<noteq> None)"

definition is_number :: "json \<Rightarrow> bool" where
  \<comment> \<open>\<^verbatim>\<open>isinstance(v, (int, float))\<close>\<close>
  "is_number v = (case v of JInt _ \<Rightarrow> True | JBool _ \<Rightarrow> True | JFloat _ \<Rightarrow> True | _ \<Rightarrow> False)"

definition truthy :: "json \<Rightarrow> bool" where
  \<comment> \<open>Python's truth value of an object, as \<^verbatim>\<open>if v:\<close> tests it.\<close>
  "truthy v =
     (case v of
        JNone \<Rightarrow> False
      | JBool b \<Rightarrow> b
      | JInt i \<Rightarrow> i \<noteq> 0
      | JFloat f \<Rightarrow> (case f of Finite m e \<Rightarrow> m \<noteq> 0 | _ \<Rightarrow> True)
      | JStr s \<Rightarrow> s \<noteq> []
      | JList xs \<Rightarrow> xs \<noteq> []
      | JDict d \<Rightarrow> d \<noteq> [])"

definition dict_get :: "(string \<times> json) list \<Rightarrow> string \<Rightarrow> json \<Rightarrow> json" where
  \<comment> \<open>\<^verbatim>\<open>d.get(k, default)\<close>\<close>
  "dict_get d k dflt = (case map_of d k of None \<Rightarrow> dflt | Some v \<Rightarrow> v)"

fun str_contains :: "string \<Rightarrow> string \<Rightarrow> bool" where
  \<comment> \<open>\<^verbatim>\<open>p in s\<close> on two strings: \<open>p\<close> occurs in \<open>s\<close>.\<close>
  "str_contains [] p = (p = [])"
| "str_contains (c # cs) p = (take (length p) (c # cs) = p \<or> str_contains cs p)"

definition py_contains :: "json \<Rightarrow> string \<Rightarrow> py_error + bool" where
  \<comment> \<open>\<^verbatim>\<open>k in container\<close> for a string \<open>k\<close>: key of a dictionary, element of a list,
      substring of a string; any other right operand is not iterable.\<close>
  "py_contains container k =
     (case container of
        JDict d \<Rightarrow> Inr (map_of d k \<noteq> None)
      | JList xs \<Rightarrow> Inr (JStr k \<in> set xs)
      | JStr s \<Rightarrow> Inr (str_contains s k)
      | _ \<Rightarrow> Inl TypeError)"

definition py_getitem :: "json \<Rightarrow> string \<Rightarrow> py_error + json" where
  \<comment> \<open>\<^verbatim>\<open>container[k]\<close> for a string \<open>k\<close>: only a dictionary can be indexed by one.\<close>
  "py_getitem container k =
     (case container of
        JDict d \<Rightarrow> (case map_of d k of None \<Rightarrow> Inl KeyError | Some v \<Rightarrow> Inr v)
      | _ \<Rightarrow> Inl TypeError)"

subsection \<open>Strings\<close>

text \<open>
  \<^verbatim>\<open>str.strip()\<close> removes, at both ends, the code points for which
  \<^verbatim>\<open>str.isspace()\<close> holds: U+0009 to U+000D, U+001C to U+0020, U+0085, U+00A0, U+1680,
  U+2000 to U+200A, U+2028, U+2029, U+202F, U+205F and U+3000. \<open>whitespace\<close> lists their
  UTF-8 encodings. In UTF-8 no encoding of a code point ends or begins inside another, so
  removing one of these byte sequences at an end of the string removes that code point.
\<close>

definition whitespace :: "string list" where
  "whitespace =
     [[CHR 0x09], [CHR 0x0A], [CHR 0x0B], [CHR 0x0C], [CHR 0x0D],
      [CHR 0x1C], [CHR 0x1D], [CHR 0x1E], [CHR 0x1F], [CHR 0x20],
      [CHR 0xC2, CHR 0x85], [CHR 0xC2, CHR 0xA0],
      [CHR 0xE1, CHR 0x9A, CHR 0x80],
      [CHR 0xE2, CHR 0x80, CHR 0x80], [CHR 0xE2, CHR 0x80, CHR 0x81],
      [CHR 0xE2, CHR 0x80, CHR 0x82], [CHR 0xE2, CHR 0x80, CHR 0x83],
      [CHR 0xE2, CHR 0x80, CHR 0x84], [CHR 0xE2, CHR 0x80, CHR 0x85],
      [CHR 0xE2, CHR 0x80, CHR 0x86], [CHR 0xE2, CHR 0x80, CHR 0x87],
      [CHR 0xE2, CHR 0x80, CHR 0x88], [CHR 0xE2, CHR 0x80, CHR 0x89],
      [CHR 0xE2, CHR 0x80, CHR 0x8A],
      [CHR 0xE2, CHR 0x80, CHR 0xA8], [CHR 0xE2, CHR 0x80, CHR 0xA9],
      [CHR 0xE2, CHR 0x80, CHR 0xAF],
      [CHR 0xE2, CHR 0x81, CHR 0x9F],
      [CHR 0xE3, CHR 0x80, CHR 0x80]]"

fun leading_code :: "string list \<Rightarrow> string \<Rightarrow> nat" where
  \<comment> \<open>The length of the first of the byte sequences \<open>ws\<close> that \<open>s\<close> begins with, 0 if it
      begins with none.\<close>
  "leading_code [] s = 0"
| "leading_code (w # ws) s =
     (if w \<noteq> [] \<and> take (length w) s = w then length w else leading_code ws s)"

function strip_leading :: "string list \<Rightarrow> string \<Rightarrow> string" where
  "strip_leading ws s =
     (if leading_code ws s = 0 then s else strip_leading ws (drop (leading_code ws s) s))"
  by pat_completeness auto
termination
proof (relation "measure (\<lambda>(ws, s). length s)")
  show "wf (measure (\<lambda>(ws, s). length s))" by simp
next
  fix ws :: "string list" and s :: string
  assume a: "leading_code ws s \<noteq> 0"
  then have "s \<noteq> []" by (induction ws) (auto split: if_splits)
  with a show "((ws, drop (leading_code ws s) s), (ws, s)) \<in> measure (\<lambda>(ws, s). length s)"
    by simp
qed

declare strip_leading.simps [simp del]

definition py_strip :: "string \<Rightarrow> string" where
  \<comment> \<open>\<^verbatim>\<open>s.strip()\<close>: whitespace is removed at the start, then at the end.\<close>
  "py_strip s = rev (strip_leading (map rev whitespace) (rev (strip_leading whitespace s)))"

text \<open>
  \<^verbatim>\<open>str.lower()\<close> turns \<open>A\<close> to \<open>Z\<close> into \<open>a\<close> to \<open>z\<close> and leaves every other
  ASCII character. What it does to a string with a code point beyond ASCII depends on the
  Unicode tables and is the parameter \<open>py_lower_unicode\<close>.
\<close>

definition lower_char :: "char \<Rightarrow> char" where
  "lower_char c =
     (if 65 \<le> (of_char c :: nat) \<and> (of_char c :: nat) \<le> 90 then char_of (of_char c + 32 :: nat) else c)"

definition is_ascii :: "char \<Rightarrow> bool" where
  "is_ascii c = ((of_char c :: nat) < 128)"

definition py_lower :: "builtins \<Rightarrow> string \<Rightarrow> string" where
  "py_lower B s = (if list_all is_ascii s then map lower_char s else py_lower_unicode B s)"

definition digit_char :: "nat \<Rightarrow> char" where
  "digit_char d = char_of (48 + d)"

function str_of_nat :: "nat \<Rightarrow> string" where
  "str_of_nat n = (if n < 10 then [digit_char n] else str_of_nat (n div 10) @ [digit_char (n mod 10)])"
  by pat_completeness auto
termination
  by (relation "measure id") auto

declare str_of_nat.simps [simp del]

definition str_of_int :: "int \<Rightarrow> string" where
  "str_of_int i = (if i < 0 then ''-'' @ str_of_nat (nat (- i)) else str_of_nat (nat i))"

definition quoted :: "string \<Rightarrow> string" where
  "quoted s = [CHR 0x27] @ s @ [CHR 0x27]"

fun join_strs :: "string \<Rightarrow> string list \<Rightarrow> string" where
  "join_strs sep [] = []"
| "join_strs sep [x] = x"
| "join_strs sep (x # y # ys) = x @ sep @ join_strs sep (y # ys)"

definition repr_str_list :: "string list \<Rightarrow> string" where
  \<comment> \<open>What an f-string prints for a list of plain strings: \<^verbatim>\<open>['a', 'b']\<close>.\<close>
  "repr_str_list xs = ''['' @ join_strs '', '' (map quoted xs) @ '']''"

section \<open>The vocabulary\<close>

text \<open>
  \<^verbatim>\<open>VALID_INDICATORS\<close> maps a name to its configuration. The entry
  \<^verbatim>\<open>{"requires_period": False}\<close> is \<open>None\<close>, and
  \<^verbatim>\<open>{"requires_period": True, "default_period": d}\<close> is \<open>Some d\<close>.
\<close>

definition VALID_INDICATORS :: "(string \<times> int option) list" where
  "VALID_INDICATORS =
     [(''close'', None), (''open'', None), (''high'', None), (''low'', None),
      (''volume'', None), (''volume_turnover'', None),
      (''sma'', Some 20), (''ema'', Some 20), (''wma'', Some 20), (''hma'', Some 20),
      (''vwma'', Some 20),
      (''rsi'', Some 14), (''macd'', Some 12), (''macd_signal'', Some 9), (''adx'', Some 14),
      (''atr'', Some 14), (''atr_ratio'', Some 14), (''bb_high'', Some 20),
      (''bb_mid'', Some 20), (''bb_low'', Some 20),
      (''volume_sma'', Some 20)]"

definition approx_op :: string where
  \<comment> \<open>\<^verbatim>\<open>"\<approx> (approx)"\<close>: the sign U+2248 in UTF-8, a space and \<^verbatim>\<open>(approx)\<close>.\<close>
  "approx_op = [CHR 0xE2, CHR 0x89, CHR 0x88] @ '' (approx)''"

definition VALID_OPERATORS :: "string list" where
  "VALID_OPERATORS = [''>'', ''<'', ''>='', ''<='', ''=='', approx_op]"

definition VALID_TIMEFRAMES :: "string list" where
  "VALID_TIMEFRAMES = [''daily'', ''weekly'', ''monthly'']"

definition in_strs :: "json \<Rightarrow> string list \<Rightarrow> bool" where
  \<comment> \<open>\<^verbatim>\<open>v in xs\<close> for a list of strings: only an equal string is a member.\<close>
  "in_strs v xs = (v \<in> set (map JStr xs))"

section \<open>Validation\<close>

text \<open>
  \<^verbatim>\<open>self.warnings\<close> is passed in and returned: each function takes the warnings
  collected so far and returns them with its own appended. A result is \<open>Inl\<close> of the
  exception raised, or \<open>Inr\<close> of the returned pair and the warnings.
\<close>

type_synonym verdict = "py_error + ((bool \<times> string) \<times> string list)"

definition check_period ::
  "string \<Rightarrow> int option \<Rightarrow> (string \<times> json) list \<Rightarrow> string list \<Rightarrow>
     py_error + (string option \<times> string list)" where
  \<comment> \<open>The block \<^verbatim>\<open># Check params/period\<close> of \<^verbatim>\<open>validate_indicator\<close>: the error it
      returns, if any, and the warnings.\<close>
  "check_period name ind_config indicator ws =
     (case ind_config of
        None \<Rightarrow> Inr (None, ws)
      | Some default_period \<Rightarrow>
        (let params = dict_get indicator ''params'' (JDict []) in
         case py_contains params ''period'' of
           Inl e \<Rightarrow> Inl e
         | Inr False \<Rightarrow>
             Inr (None, ws @ [quoted name @ '' missing 'period' - defaulting to ''
                                @ str_of_int default_period])
         | Inr True \<Rightarrow>
             (case py_getitem params ''period'' of
                Inl e \<Rightarrow> Inl e
              | Inr period \<Rightarrow>
                  if (case as_int period of None \<Rightarrow> True | Some p \<Rightarrow> p < 1)
                  then Inr (Some (quoted name @ '' period must be a positive integer''), ws)
                  else Inr (None, ws))))"

definition check_side_fields ::
  "(string \<times> json) list \<Rightarrow> string \<Rightarrow> string list \<Rightarrow> verdict" where
  \<comment> \<open>The block \<^verbatim>\<open># RHS-only fields validation\<close> of \<^verbatim>\<open>validate_indicator\<close>, up to
      its final \<^verbatim>\<open>return True, ""\<close>.\<close>
  "check_side_fields indicator side ws =
     (if side = ''rhs'' then
        (if (case map_of indicator ''multiplier'' of None \<Rightarrow> False | Some m \<Rightarrow> \<not> is_number m)
         then Inr ((False, '''multiplier' must be a number''), ws)
         else if (case map_of indicator ''add_offset'' of None \<Rightarrow> False | Some a \<Rightarrow> \<not> is_number a)
         then Inr ((False, '''add_offset' must be a number''), ws)
         else Inr ((True, []), ws))
      else if side = ''lhs'' then
        (let ws1 = (if map_of indicator ''multiplier'' \<noteq> None
                    then ws @ ['''multiplier' on LHS will be ignored - only valid for RHS'']
                    else ws);
             ws2 = (if map_of indicator ''add_offset'' \<noteq> None
                    then ws1 @ ['''add_offset' on LHS will be ignored - only valid for RHS'']
                    else ws1)
         in Inr ((True, []), ws2))
      else Inr ((True, []), ws))"

definition validate_indicator_rest ::
  "string \<Rightarrow> int option \<Rightarrow> (string \<times> json) list \<Rightarrow> string \<Rightarrow> string list \<Rightarrow> verdict" where
  \<comment> \<open>\<^verbatim>\<open>validate_indicator\<close> from \<^verbatim>\<open># Check offset\<close> to its end.\<close>
  "validate_indicator_rest name ind_config indicator side ws =
     (if (case map_of indicator ''offset'' of
            None \<Rightarrow> False
          | Some off \<Rightarrow> (case as_int off of None \<Rightarrow> True | Some i \<Rightarrow> i < 0))
      then Inr ((False, '''offset' must be a non-negative integer''), ws)
      else
        (case check_period name ind_config indicator ws of
           Inl e \<Rightarrow> Inl e
         | Inr (Some period_error, ws1) \<Rightarrow> Inr ((False, period_error), ws1)
         | Inr (None, ws1) \<Rightarrow> check_side_fields indicator side ws1))"

definition validate_indicator ::
  "builtins \<Rightarrow> (string \<times> json) list \<Rightarrow> string \<Rightarrow> string list \<Rightarrow> verdict" where
  "validate_indicator B indicator side ws =
     (case map_of indicator ''name'' of
        None \<Rightarrow> Inr ((False, ''Missing 'name' field''), ws)
      | Some nm \<Rightarrow>
        (case nm of
           JStr s \<Rightarrow>
             (let name = py_lower B s in
              case map_of VALID_INDICATORS name of
                None \<Rightarrow>
                  Inr ((False, ''Unknown indicator '' @ quoted name @ ''. Valid indicators: ''
                          @ repr_str_list (map fst VALID_INDICATORS)), ws)
              | Some ind_config \<Rightarrow>
                (case map_of indicator ''timeframe'' of
                   Some tf \<Rightarrow>
                     if \<not> in_strs tf VALID_TIMEFRAMES
                     then Inr ((False, ''Invalid timeframe '' @ quoted (py_str B tf) @ ''. Valid: ''
                                 @ repr_str_list VALID_TIMEFRAMES), ws)
                     else validate_indicator_rest name ind_config indicator side ws
                 | None \<Rightarrow>
                     validate_indicator_rest name ind_config indicator side
                       (ws @ [quoted name @ '' missing 'timeframe' - defaulting to ''
                                @ quoted ''daily''])))
         | _ \<Rightarrow> Inl AttributeError))"

definition validate_operand :: "builtins \<Rightarrow> json \<Rightarrow> string \<Rightarrow> string list \<Rightarrow> verdict" where
  "validate_operand B operand side ws =
     (case operand of
        JDict d \<Rightarrow>
          (case map_of d ''type'' of
             None \<Rightarrow> Inr ((False, ''Missing 'type' field''), ws)
           | Some op_type \<Rightarrow>
               if op_type = JStr ''value'' then
                 (case map_of d ''value'' of
                    None \<Rightarrow> Inr ((False, ''Value type missing 'value' field''), ws)
                  | Some v \<Rightarrow>
                      if \<not> is_number v then Inr ((False, '''value' must be a number''), ws)
                      else Inr ((True, []), ws))
               else if op_type = JStr ''indicator'' then validate_indicator B d side ws
               else Inr ((False, ''Invalid type '' @ quoted (py_str B op_type)
                            @ ''. Must be 'indicator' or '' @ quoted ''value''), ws))
      | _ \<Rightarrow> Inr ((False, ''Operand must be an object''), ws))"

definition validate_condition :: "builtins \<Rightarrow> json \<Rightarrow> nat \<Rightarrow> string list \<Rightarrow> verdict" where
  "validate_condition B condition index ws =
     (case condition of
        JDict c \<Rightarrow>
          (case map_of c ''lhs'' of
             None \<Rightarrow> Inr ((False, ''Missing 'lhs' (left-hand side)''), ws)
           | Some lhs \<Rightarrow>
          (case map_of c ''operator'' of
             None \<Rightarrow> Inr ((False, ''Missing '' @ quoted ''operator''), ws)
           | Some operator \<Rightarrow>
          (case map_of c ''rhs'' of
             None \<Rightarrow> Inr ((False, ''Missing 'rhs' (right-hand side)''), ws)
           | Some rhs \<Rightarrow>
               if \<not> in_strs operator VALID_OPERATORS
               then Inr ((False, ''Invalid operator '' @ quoted (py_str B operator) @ ''. Valid: ''
                           @ repr_str_list VALID_OPERATORS), ws)
               else
                 (let ws1 = (if operator = JStr approx_op \<and> map_of c ''tolerance'' = None
                             then ws @ [''Condition '' @ str_of_nat (index + 1) @ '': ''
                                          @ quoted approx_op
                                          @ '' operator without 'tolerance' - defaulting to 1%'']
                             else ws)
                  in
                  case validate_operand B lhs ''lhs'' ws1 of
                    Inl e \<Rightarrow> Inl e
                  | Inr ((lhs_valid, lhs_error), ws2) \<Rightarrow>
                      if \<not> lhs_valid then Inr ((False, ''LHS error: '' @ lhs_error), ws2)
                      else
                        (case validate_operand B rhs ''rhs'' ws2 of
                           Inl e \<Rightarrow> Inl e
                         | Inr ((rhs_valid, rhs_error), ws3) \<Rightarrow>
                             if \<not> rhs_valid then Inr ((False, ''RHS error: '' @ rhs_error), ws3)
                             else Inr ((True, []), ws3))))))
      | _ \<Rightarrow> Inr ((False, ''Condition must be an object''), ws))"

text \<open>
  The loop \<^verbatim>\<open>for i, condition in enumerate(strategy["conditions"])\<close>, with
  \<^verbatim>\<open>self.errors\<close> and \<^verbatim>\<open>self.warnings\<close> passed along. An exception leaves the loop.
\<close>

fun validate_conditions ::
  "builtins \<Rightarrow> json list \<Rightarrow> nat \<Rightarrow> string list \<Rightarrow> string list \<Rightarrow>
     py_error + (string list \<times> string list)" where
  "validate_conditions B [] i es ws = Inr (es, ws)"
| "validate_conditions B (condition # cs) i es ws =
     (case validate_condition B condition i ws of
        Inl e \<Rightarrow> Inl e
      | Inr ((cond_valid, cond_error), ws') \<Rightarrow>
          validate_conditions B cs (i + 1)
            (if \<not> cond_valid
             then es @ [''Condition '' @ str_of_nat (i + 1) @ '': '' @ cond_error]
             else es)
            ws')"

definition name_errors :: "(string \<times> json) list \<Rightarrow> string list" where
  \<comment> \<open>The block \<^verbatim>\<open># Validate name\<close> of \<^verbatim>\<open>validate_strategy\<close>: what it appends to
      the still empty \<^verbatim>\<open>self.errors\<close>.\<close>
  "name_errors d =
     (case map_of d ''name'' of
        None \<Rightarrow> [''Missing required field: '' @ quoted ''name'']
      | Some nm \<Rightarrow>
          if (case nm of JStr s \<Rightarrow> py_strip s = [] | _ \<Rightarrow> True)
          then ['''name' must be a non-empty string'']
          else [])"

definition validate_strategy ::
  "builtins \<Rightarrow> json \<Rightarrow> py_error + (bool \<times> string list \<times> string list)" where
  "validate_strategy B strategy =
     (case strategy of
        JDict d \<Rightarrow>
          (let es1 = name_errors d;
               ws1 = (if map_of d ''description'' = None
                      then [''Missing 'description' field - recommended for clarity'']
                      else [])
           in
           case
             (case map_of d ''conditions'' of
                None \<Rightarrow> Inr (es1 @ [''Missing required field: '' @ quoted ''conditions''], ws1)
              | Some cs \<Rightarrow>
                  (case cs of
                     JList conds \<Rightarrow>
                       if length conds = 0
                       then Inr (es1 @ ['''conditions' array cannot be empty''], ws1)
                       else validate_conditions B conds 0 es1 ws1
                   | _ \<Rightarrow> Inr (es1 @ ['''conditions' must be an array''], ws1)))
           of
             Inl e \<Rightarrow> Inl e
           | Inr (errors, warnings) \<Rightarrow> Inr (length errors = 0, errors, warnings))
      | _ \<Rightarrow> Inr (False, [''Strategy must be a JSON object''], []))"

section \<open>Sanitization\<close>

text \<open>
  \<^verbatim>\<open>_sanitize_operand\<close> returns a fresh dictionary, \<^verbatim>\<open>None\<close> (here \<open>Inr None\<close>)
  or raises. The keys of the result are in the order of the assignments.
\<close>

definition sanitize_operand :: "builtins \<Rightarrow> json \<Rightarrow> string \<Rightarrow> py_error + json option" where
  "sanitize_operand B operand side =
     (case operand of
        JDict d \<Rightarrow>
          (let op_type = dict_get d ''type'' (JStr ''indicator'') in
           if op_type = JStr ''value'' then
             (let v = dict_get d ''value'' (JInt 0) in
              if \<not> is_number v then
                (case py_float B v of
                   Inr f \<Rightarrow> Inr (Some (JDict [(''type'', JStr ''value''), (''value'', JFloat f)]))
                 | Inl e \<Rightarrow>
                     if e = ValueError \<or> e = TypeError
                     then Inr (Some (JDict [(''type'', JStr ''value''), (''value'', JInt 0)]))
                     else Inl e)
              else Inr (Some (JDict [(''type'', JStr ''value''), (''value'', v)])))
           else if op_type = JStr ''indicator'' then
             (let name0 = py_lower B (py_str B (dict_get d ''name'' (JStr ''close'')));
                  name = (if map_of VALID_INDICATORS name0 = None then ''close'' else name0);
                  timeframe0 = dict_get d ''timeframe'' (JStr ''daily'')
              in
              case py_int B (dict_get d ''offset'' (JInt 0)) of
                Inl e \<Rightarrow> Inl e
              | Inr off \<Rightarrow>
              (let timeframe = (if \<not> in_strs timeframe0 VALID_TIMEFRAMES then JStr ''daily''
                                else timeframe0)
               in
               case
                 (case map_of VALID_INDICATORS name of
                    None \<Rightarrow> Inl KeyError
                  | Some None \<Rightarrow> Inr (JDict [])
                  | Some (Some default_period) \<Rightarrow>
                      (case dict_get d ''params'' (JDict []) of
                         JDict params \<Rightarrow>
                           (let period0 = dict_get params ''period'' (JInt default_period);
                                period = (if (case as_int period0 of None \<Rightarrow> True | Some p \<Rightarrow> p < 1)
                                          then JInt default_period else period0)
                            in Inr (JDict [(''period'', period)]))
                       | _ \<Rightarrow> Inl AttributeError))
               of
                 Inl e \<Rightarrow> Inl e
               | Inr params \<Rightarrow>
                 (let sanitized = [(''type'', JStr ''indicator''), (''name'', JStr name),
                                   (''timeframe'', timeframe), (''offset'', JInt (max 0 off)),
                                   (''params'', params)]
                  in
                  if side = ''rhs'' then
                    (case (if map_of d ''multiplier'' \<noteq> None
                           then map_sum id (\<lambda>f. [(''multiplier'', JFloat f)])
                                  (py_float B (dict_get d ''multiplier'' (JFloat (Finite 1 0))))
                           else Inr [])
                     of
                       Inl e \<Rightarrow> Inl e
                     | Inr mult \<Rightarrow>
                       (case (if map_of d ''add_offset'' \<noteq> None
                              then map_sum id (\<lambda>f. [(''add_offset'', JFloat f)])
                                     (py_float B (dict_get d ''add_offset'' (JFloat (Finite 0 0))))
                              else Inr [])
                        of
                          Inl e \<Rightarrow> Inl e
                        | Inr addo \<Rightarrow> Inr (Some (JDict (sanitized @ mult @ addo)))))
                  else Inr (Some (JDict sanitized)))))
           else Inr None)
      | _ \<Rightarrow> Inr None)"

definition sanitize_condition ::
  "builtins \<Rightarrow> (string \<times> json) list \<Rightarrow> py_error + json option" where
  "sanitize_condition B condition =
     (case map_of condition ''lhs'' of
        None \<Rightarrow> Inr None
      | Some lhs \<Rightarrow>
     (case map_of condition ''rhs'' of
        None \<Rightarrow> Inr None
      | Some rhs \<Rightarrow>
     (case sanitize_operand B lhs ''lhs'' of
        Inl e \<Rightarrow> Inl e
      | Inr slhs \<Rightarrow>
     (let operator0 = dict_get condition ''operator'' (JStr ''>'') in
      case sanitize_operand B rhs ''rhs'' of
        Inl e \<Rightarrow> Inl e
      | Inr srhs \<Rightarrow>
          (case (slhs, srhs) of
             (Some l, Some r) \<Rightarrow>
               (let operator = (if \<not> in_strs operator0 VALID_OPERATORS then JStr ''>''
                                else operator0)
                in Inr (Some (JDict
                     ([(''lhs'', l), (''operator'', operator), (''rhs'', r)]
                      @ (if operator = JStr approx_op
                         then [(''tolerance'', dict_get condition ''tolerance'' (JFloat (Finite 1 0)))]
                         else [])))))
           | _ \<Rightarrow> Inr None)))))"

text \<open>
  The loop \<^verbatim>\<open>for condition in conditions\<close> of \<^verbatim>\<open>sanitize_strategy\<close>; \<open>acc\<close> is
  \<^verbatim>\<open>sanitized["conditions"]\<close>.
\<close>

fun sanitize_conditions :: "builtins \<Rightarrow> json list \<Rightarrow> json list \<Rightarrow> py_error + json list" where
  "sanitize_conditions B [] acc = Inr acc"
| "sanitize_conditions B (condition # cs) acc =
     (case condition of
        JDict c \<Rightarrow>
          (case sanitize_condition B c of
             Inl e \<Rightarrow> Inl e
           | Inr None \<Rightarrow> sanitize_conditions B cs acc
           | Inr (Some sc) \<Rightarrow>
               if truthy sc then sanitize_conditions B cs (acc @ [sc])
               else sanitize_conditions B cs acc)
      | _ \<Rightarrow> sanitize_conditions B cs acc)"

definition sanitize_strategy :: "builtins \<Rightarrow> json \<Rightarrow> py_error + json" where
  "sanitize_strategy B strategy =
     (case strategy of
        JDict d \<Rightarrow>
          (case dict_get d ''name'' (JStr ''Unnamed Strategy'') of
             JStr s \<Rightarrow>
               (let conditions = (case dict_get d ''conditions'' (JList []) of
                                    JList cs \<Rightarrow> cs
                                  | _ \<Rightarrow> [])
                in
                case sanitize_conditions B conditions [] of
                  Inl e \<Rightarrow> Inl e
                | Inr scs \<Rightarrow>
                    Inr (JDict [(''name'', JStr (py_strip s)),
                                (''description'', dict_get d ''description'' (JStr [])),
                                (''conditions'', JList scs)]))
           | _ \<Rightarrow> Inl AttributeError)
      | _ \<Rightarrow> Inr (JDict [(''name'', JStr ''Invalid Strategy''), (''description'', JStr []),
                          (''conditions'', JList [])]))"

text \<open>
  One behaviour of the parameter builtins, used to run the definitions on examples:
  integers and decimal digit strings convert exactly, any other string is malformed.
\<close>

fun nat_of_digits :: "nat \<Rightarrow> string \<Rightarrow> nat option" where
  "nat_of_digits acc [] = Some acc"
| "nat_of_digits acc (c # cs) =
     (if 48 \<le> (of_char c :: nat) \<and> (of_char c :: nat) \<le> 57
      then nat_of_digits (10 * acc + (of_char c - 48)) cs else None)"

definition digits_to_int :: "string \<Rightarrow> py_error + int" where
  "digits_to_int s =
     (if s = [] then Inl ValueError
      else case nat_of_digits 0 s of None \<Rightarrow> Inl ValueError | Some n \<Rightarrow> Inr (int n))"

definition example_builtins :: builtins where
  "example_builtins =
     \<lparr> py_repr = (\<lambda>v. (case v of JNone \<Rightarrow> ''None'' | JBool b \<Rightarrow> (if b then ''True'' else ''False'')
                          | JInt i \<Rightarrow> str_of_int i | _ \<Rightarrow> ''<object>'')),
       py_float_of_int = (\<lambda>i. Inr (Finite i 0)),
       py_float_of_str = (\<lambda>s. map_sum id (\<lambda>i. Finite i 0) (digits_to_int s)),
       py_int_of_str = digits_to_int,
       py_lower_unicode = (\<lambda>s. s) \<rparr>"

subsection \<open>Example inputs\<close>

definition oversold_condition :: json where
  \<comment> \<open>\<^verbatim>\<open>{"lhs": {"type": "indicator", "name": "rsi"}, "operator": "<",
      "rhs": {"type": "value", "value": 30}}\<close>\<close>
  "oversold_condition =
     JDict [(''lhs'', JDict [(''type'', JStr ''indicator''), (''name'', JStr ''rsi'')]),
            (''operator'', JStr ''<''),
            (''rhs'', JDict [(''type'', JStr ''value''), (''value'', JInt 30)])]"

definition no_lhs_condition :: json where
  \<comment> \<open>\<^verbatim>\<open>{"operator": "<", "rhs": {"type": "value", "value": 30}}\<close>\<close>
  "no_lhs_condition =
     JDict [(''operator'', JStr ''<''),
            (''rhs'', JDict [(''type'', JStr ''value''), (''value'', JInt 30)])]"

definition oversold_strategy :: json where
  \<comment> \<open>\<^verbatim>\<open>{"name": " Oversold ", "conditions": [<oversold_condition>, 7, <no_lhs_condition>]}\<close>\<close>
  "oversold_strategy =
     JDict [(''name'', JStr '' Oversold ''),
            (''conditions'', JList [oversold_condition, JInt 7, no_lhs_condition])]"

definition sanitized_oversold_strategy :: json where
  "sanitized_oversold_strategy =
     JDict [(''name'', JStr ''Oversold''), (''description'', JStr []),
            (''conditions'', JList [
               JDict [(''lhs'', JDict [(''type'', JStr ''indicator''), (''name'', JStr ''rsi''),
                                       (''timeframe'', JStr ''daily''), (''offset'', JInt 0),
                                       (''params'', JDict [(''period'', JInt 14)])]),
                      (''operator'', JStr ''<''),
                      (''rhs'', JDict [(''type'', JStr ''value''), (''value'', JInt 30)])]])]"

section \<open>Notions used to state the properties\<close>

definition condition_result :: "builtins \<Rightarrow> json \<Rightarrow> nat \<Rightarrow> py_error + (bool \<times> string)" where
  \<comment> \<open>What \<^verbatim>\<open>validate_condition(condition, index)\<close> returns, the warnings left out.\<close>
  "condition_result B condition index =
     (case validate_condition B condition index [] of
        Inl e \<Rightarrow> Inl e
      | Inr (r, ws) \<Rightarrow> Inr r)"

text \<open>
  The reading of one condition as a fixed sequence of checks, of which the first that
  fails is reported: each check is \<open>Inr None\<close> when it passes (or does not apply, its
  key being absent), \<open>Inr (Some reason)\<close> when it fails and \<open>Inl e\<close> when it raises.
\<close>

fun first_failure :: "(py_error + string option) list \<Rightarrow> py_error + (bool \<times> string)" where
  "first_failure [] = Inr (True, [])"
| "first_failure (Inl e # checks) = Inl e"
| "first_failure (Inr (Some reason) # checks) = Inr (False, reason)"
| "first_failure (Inr None # checks) = first_failure checks"

definition operand_check ::
  "builtins \<Rightarrow> json option \<Rightarrow> string \<Rightarrow> string \<Rightarrow> py_error + string option" where
  "operand_check B operand side prefix =
     (case operand of
        None \<Rightarrow> Inr None
      | Some v \<Rightarrow>
          (case validate_operand B v side [] of
             Inl e \<Rightarrow> Inl e
           | Inr ((ok, reason), ws) \<Rightarrow> Inr (if ok then None else Some (prefix @ reason))))"

definition spec_condition_checks ::
  "builtins \<Rightarrow> (string \<times> json) list \<Rightarrow> (py_error + string option) list" where
  "spec_condition_checks B c =
     [Inr (if map_of c ''lhs'' = None then Some ''Missing 'lhs' (left-hand side)'' else None),
      Inr (if map_of c ''operator'' = None then Some (''Missing '' @ quoted ''operator'') else None),
      Inr (if map_of c ''rhs'' = None then Some ''Missing 'rhs' (right-hand side)'' else None),
      Inr (case map_of c ''operator'' of
             None \<Rightarrow> None
           | Some operator \<Rightarrow>
               if in_strs operator VALID_OPERATORS then None
               else Some (''Invalid operator '' @ quoted (py_str B operator) @ ''. Valid: ''
                            @ repr_str_list VALID_OPERATORS)),
      operand_check B (map_of c ''lhs'') ''lhs'' ''LHS error: '',
      operand_check B (map_of c ''rhs'') ''rhs'' ''RHS error: '']"

definition without_rhs_fields :: "(string \<times> json) list \<Rightarrow> (string \<times> json) list" where
  \<comment> \<open>An indicator operand with its \<^verbatim>\<open>multiplier\<close> and \<^verbatim>\<open>add_offset\<close> fields removed.\<close>
  "without_rhs_fields d = filter (\<lambda>kv. fst kv \<noteq> ''multiplier'' \<and> fst kv \<noteq> ''add_offset'') d"

definition lhs_field_warnings :: "(string \<times> json) list \<Rightarrow> string list" where
  \<comment> \<open>The warnings of lines 195 to 198, one for each of the two fields that is present.\<close>
  "lhs_field_warnings d =
     (if map_of d ''multiplier'' \<noteq> None
      then ['''multiplier' on LHS will be ignored - only valid for RHS''] else [])
     @ (if map_of d ''add_offset'' \<noteq> None
        then ['''add_offset' on LHS will be ignored - only valid for RHS''] else [])"

definition lhs_with_multiplier :: "(string \<times> json) list" where
  \<comment> \<open>\<^verbatim>\<open>{"type": "indicator", "name": "close", "timeframe": "daily", "multiplier": "2"}\<close>\<close>
  "lhs_with_multiplier =
     [(''type'', JStr ''indicator''), (''name'', JStr ''close''), (''timeframe'', JStr ''daily''),
      (''multiplier'', JStr ''2'')]"

text \<open>
  The shape of what the sanitizer builds: an operand and a condition that conform to the
  schema, with the keys in the order of the assignments.
\<close>

definition conformant_operand :: "string \<Rightarrow> json \<Rightarrow> bool" where
  "conformant_operand side y \<longleftrightarrow>
     (\<exists>x. y = JDict [(''type'', JStr ''value''), (''value'', x)] \<and> is_number x)
     \<or> (\<exists>n cfg tf off ps extra.
           y = JDict ([(''type'', JStr ''indicator''), (''name'', JStr n), (''timeframe'', tf),
                       (''offset'', JInt off), (''params'', ps)] @ extra)
           \<and> map_of VALID_INDICATORS n = Some cfg
           \<and> in_strs tf VALID_TIMEFRAMES
           \<and> 0 \<le> off
           \<and> (case cfg of
                 None \<Rightarrow> ps = JDict []
               | Some default_period \<Rightarrow>
                   (\<exists>p i. ps = JDict [(''period'', p)] \<and> as_int p = Some i \<and> 1 \<le> i))
           \<and> (if side = ''rhs''
                then \<exists>mult addo. extra = mult @ addo
                       \<and> (mult = [] \<or> (\<exists>f. mult = [(''multiplier'', JFloat f)]))
                       \<and> (addo = [] \<or> (\<exists>f. addo = [(''add_offset'', JFloat f)]))
                else extra = []))"

definition conformant_condition :: "json \<Rightarrow> bool" where
  "conformant_condition y \<longleftrightarrow>
     (\<exists>l operator r tol.
        y = JDict ([(''lhs'', l), (''operator'', JStr operator), (''rhs'', r)] @ tol)
        \<and> conformant_operand ''lhs'' l \<and> conformant_operand ''rhs'' r
        \<and> operator \<in> set VALID_OPERATORS
        \<and> (if operator = approx_op then \<exists>t. tol = [(''tolerance'', t)] else tol = []))"

section \<open>The sanitizer on a store\<close>

text \<open>
  To say that \<^verbatim>\<open>sanitize_strategy\<close> leaves its input alone, lists and dictionaries are
  objects in a store, reached through references, and the sanitizer takes the store and
  returns it with the objects it has created. An address is an index of the store; a new
  object is appended. Every \<^verbatim>\<open>[...]\<close>, \<^verbatim>\<open>{...}\<close> of the source allocates, every
  \<^verbatim>\<open>d[k] = v\<close> and \<^verbatim>\<open>xs.append(v)\<close> overwrites the object at an address, and every
  read goes through the store as it is at that moment. The store is returned also when an
  exception is raised.
\<close>

type_synonym addr = nat

datatype val = VNone | VBool bool | VInt int | VFloat pyfloat | VStr string | VRef addr

datatype obj = OList "val list" | ODict "(string \<times> val) list"

type_synonym store = "obj list"

definition shallow :: "val \<Rightarrow> json" where
  \<comment> \<open>A value as the type tests, comparisons with a string and numeric conversions see it:
      they do not look inside a container, which is shown as an empty list.\<close>
  "shallow v =
     (case v of
        VNone \<Rightarrow> JNone | VBool b \<Rightarrow> JBool b | VInt i \<Rightarrow> JInt i | VFloat f \<Rightarrow> JFloat f
      | VStr s \<Rightarrow> JStr s | VRef a \<Rightarrow> JList [])"

definition h_str :: "builtins \<Rightarrow> (store \<Rightarrow> addr \<Rightarrow> string) \<Rightarrow> store \<Rightarrow> val \<Rightarrow> string" where
  \<comment> \<open>\<^verbatim>\<open>str(v)\<close>; the text of a container is the parameter \<open>R\<close>.\<close>
  "h_str B R st v = (case v of VRef a \<Rightarrow> R st a | _ \<Rightarrow> py_str B (shallow v))"

definition h_dict :: "store \<Rightarrow> val \<Rightarrow> (string \<times> val) list option" where
  \<comment> \<open>The items of \<open>v\<close> when \<^verbatim>\<open>isinstance(v, dict)\<close>.\<close>
  "h_dict st v =
     (case v of
        VRef a \<Rightarrow> (if a < length st then (case st ! a of ODict d \<Rightarrow> Some d | OList xs \<Rightarrow> None)
                   else None)
      | _ \<Rightarrow> None)"

definition h_list :: "store \<Rightarrow> val \<Rightarrow> val list option" where
  \<comment> \<open>The elements of \<open>v\<close> when \<^verbatim>\<open>isinstance(v, list)\<close>.\<close>
  "h_list st v =
     (case v of
        VRef a \<Rightarrow> (if a < length st then (case st ! a of OList xs \<Rightarrow> Some xs | ODict d \<Rightarrow> None)
                   else None)
      | _ \<Rightarrow> None)"

definition h_fields :: "store \<Rightarrow> val \<Rightarrow> (string \<times> val) list" where
  \<comment> \<open>The items of a value already known to be a dictionary, read from the store as it is
      now.\<close>
  "h_fields st v = (case h_dict st v of Some d \<Rightarrow> d | None \<Rightarrow> [])"

definition h_get :: "(string \<times> val) list \<Rightarrow> string \<Rightarrow> val \<Rightarrow> val" where
  "h_get d k dflt = (case map_of d k of None \<Rightarrow> dflt | Some v \<Rightarrow> v)"

definition h_alloc :: "store \<Rightarrow> obj \<Rightarrow> store \<times> val" where
  "h_alloc st ob = (st @ [ob], VRef (length st))"

fun dict_set :: "string \<Rightarrow> val \<Rightarrow> (string \<times> val) list \<Rightarrow> (string \<times> val) list" where
  \<comment> \<open>\<^verbatim>\<open>d[k] = v\<close> on the items: an existing key keeps its place, a new one comes last.\<close>
  "dict_set k v [] = [(k, v)]"
| "dict_set k v ((k', v') # d) = (if k' = k then (k, v) # d else (k', v') # dict_set k v d)"

definition h_setitem :: "store \<Rightarrow> val \<Rightarrow> string \<Rightarrow> val \<Rightarrow> store" where
  "h_setitem st target k v =
     (case target of
        VRef a \<Rightarrow> (case h_dict st target of
                     Some d \<Rightarrow> st[a := ODict (dict_set k v d)]
                   | None \<Rightarrow> st)
      | _ \<Rightarrow> st)"

definition h_append :: "store \<Rightarrow> val \<Rightarrow> val \<Rightarrow> store" where
  "h_append st target v =
     (case target of
        VRef a \<Rightarrow> (case h_list st target of
                     Some xs \<Rightarrow> st[a := OList (xs @ [v])]
                   | None \<Rightarrow> st)
      | _ \<Rightarrow> st)"

definition h_truthy :: "store \<Rightarrow> val \<Rightarrow> bool" where
  "h_truthy st v =
     (case v of
        VRef a \<Rightarrow> (a < length st \<and> (case st ! a of OList xs \<Rightarrow> xs \<noteq> [] | ODict d \<Rightarrow> d \<noteq> []))
      | _ \<Rightarrow> truthy (shallow v))"

definition h_rhs_fields ::
  "builtins \<Rightarrow> store \<Rightarrow> val \<Rightarrow> val \<Rightarrow> string \<Rightarrow> store \<times> (py_error + val)" where
  \<comment> \<open>\<^verbatim>\<open>_sanitize_operand\<close> from \<^verbatim>\<open># RHS-only fields\<close> to \<^verbatim>\<open>return sanitized\<close>.\<close>
  "h_rhs_fields B st operand sanitized side =
     (if side = ''rhs'' then
        (case (if map_of (h_fields st operand) ''multiplier'' \<noteq> None
               then (case py_float B (shallow (h_get (h_fields st operand) ''multiplier''
                                                 (VFloat (Finite 1 0)))) of
                       Inl e \<Rightarrow> Inl e
                     | Inr f \<Rightarrow> Inr (h_setitem st sanitized ''multiplier'' (VFloat f)))
               else Inr st)
         of
           Inl e \<Rightarrow> (st, Inl e)
         | Inr st1 \<Rightarrow>
             (case (if map_of (h_fields st1 operand) ''add_offset'' \<noteq> None
                    then (case py_float B (shallow (h_get (h_fields st1 operand) ''add_offset''
                                                      (VFloat (Finite 0 0)))) of
                            Inl e \<Rightarrow> Inl e
                          | Inr f \<Rightarrow> Inr (h_setitem st1 sanitized ''add_offset'' (VFloat f)))
                    else Inr st1)
              of
                Inl e \<Rightarrow> (st1, Inl e)
              | Inr st2 \<Rightarrow> (st2, Inr sanitized)))
      else (st, Inr sanitized))"

definition sanitize_operand_h ::
  "builtins \<Rightarrow> (store \<Rightarrow> addr \<Rightarrow> string) \<Rightarrow> store \<Rightarrow> val \<Rightarrow> string \<Rightarrow>
     store \<times> (py_error + val)" where
  \<comment> \<open>\<^verbatim>\<open>_sanitize_operand\<close>; the result \<^verbatim>\<open>None\<close> is \<open>VNone\<close>.\<close>
  "sanitize_operand_h B R st operand side =
     (case h_dict st operand of
        None \<Rightarrow> (st, Inr VNone)
      | Some d \<Rightarrow>
          (let op_type = h_get d ''type'' (VStr ''indicator'') in
           if op_type = VStr ''value'' then
             (let v = h_get d ''value'' (VInt 0) in
              case (if \<not> is_number (shallow v) then
                      (case py_float B (shallow v) of
                         Inr f \<Rightarrow> Inr (VFloat f)
                       | Inl e \<Rightarrow> if e = ValueError \<or> e = TypeError then Inr (VInt 0) else Inl e)
                    else Inr v)
              of
                Inl e \<Rightarrow> (st, Inl e)
              | Inr x \<Rightarrow>
                  (case h_alloc st (ODict [(''type'', VStr ''value''), (''value'', x)]) of
                     (st1, r) \<Rightarrow> (st1, Inr r)))
           else if op_type = VStr ''indicator'' then
             (let name0 = py_lower B (h_str B R st (h_get d ''name'' (VStr ''close'')));
                  name = (if map_of VALID_INDICATORS name0 = None then ''close'' else name0);
                  timeframe0 = h_get d ''timeframe'' (VStr ''daily'')
              in
              case py_int B (shallow (h_get d ''offset'' (VInt 0))) of
                Inl e \<Rightarrow> (st, Inl e)
              | Inr off \<Rightarrow>
                 (case h_alloc st (ODict [(''type'', VStr ''indicator''), (''name'', VStr name),
                                          (''timeframe'', timeframe0),
                                          (''offset'', VInt (max 0 off))]) of
                    (st1, sanitized) \<Rightarrow>
                      (let st2 = (if \<not> in_strs (shallow timeframe0) VALID_TIMEFRAMES
                                  then h_setitem st1 sanitized ''timeframe'' (VStr ''daily'')
                                  else st1)
                       in
                       case map_of VALID_INDICATORS name of
                         None \<Rightarrow> (st2, Inl KeyError)
                       | Some None \<Rightarrow>
                           (case h_alloc st2 (ODict []) of
                              (st3, p) \<Rightarrow>
                                h_rhs_fields B (h_setitem st3 sanitized ''params'' p)
                                  operand sanitized side)
                       | Some (Some default_period) \<Rightarrow>
                           (case h_alloc st2 (ODict []) of
                              (st3, dflt) \<Rightarrow>
                                (case h_dict st3 (h_get (h_fields st3 operand) ''params'' dflt) of
                                   None \<Rightarrow> (st3, Inl AttributeError)
                                 | Some params \<Rightarrow>
                                     (let period0 = h_get params ''period'' (VInt default_period);
                                          period =
                                            (if (case as_int (shallow period0) of
                                                   None \<Rightarrow> True | Some p \<Rightarrow> p < 1)
                                             then VInt default_period else period0)
                                      in
                                      case h_alloc st3 (ODict [(''period'', period)]) of
                                        (st4, p) \<Rightarrow>
                                          h_rhs_fields B (h_setitem st4 sanitized ''params'' p)
                                            operand sanitized side))))))
           else (st, Inr VNone)))"

definition sanitize_condition_h ::
  "builtins \<Rightarrow> (store \<Rightarrow> addr \<Rightarrow> string) \<Rightarrow> store \<Rightarrow> val \<Rightarrow> store \<times> (py_error + val)" where
  \<comment> \<open>\<^verbatim>\<open>_sanitize_condition\<close>, called on a dictionary; the result \<^verbatim>\<open>None\<close> is
      \<open>VNone\<close>.\<close>
  "sanitize_condition_h B R st condition =
     (if map_of (h_fields st condition) ''lhs'' = None
         \<or> map_of (h_fields st condition) ''rhs'' = None
      then (st, Inr VNone)
      else
        (case sanitize_operand_h B R st (h_get (h_fields st condition) ''lhs'' VNone) ''lhs'' of
           (st1, Inl e) \<Rightarrow> (st1, Inl e)
         | (st1, Inr slhs) \<Rightarrow>
             (let operator0 = h_get (h_fields st1 condition) ''operator'' (VStr ''>'') in
              case sanitize_operand_h B R st1 (h_get (h_fields st1 condition) ''rhs'' VNone) ''rhs'' of
                (st2, Inl e) \<Rightarrow> (st2, Inl e)
              | (st2, Inr srhs) \<Rightarrow>
                  (case h_alloc st2 (ODict [(''lhs'', slhs), (''operator'', operator0),
                                            (''rhs'', srhs)]) of
                     (st3, sanitized) \<Rightarrow>
                       if slhs = VNone \<or> srhs = VNone then (st3, Inr VNone)
                       else
                         (let st4 = (if \<not> in_strs (shallow operator0) VALID_OPERATORS
                                     then h_setitem st3 sanitized ''operator'' (VStr ''>'')
                                     else st3);
                              st5 = (if h_get (h_fields st4 sanitized) ''operator'' VNone
                                          = VStr approx_op
                                     then h_setitem st4 sanitized ''tolerance''
                                            (h_get (h_fields st4 condition) ''tolerance''
                                               (VFloat (Finite 1 0)))
                                     else st4)
                          in (st5, Inr sanitized))))))"

text \<open>
  The loop \<^verbatim>\<open>for condition in conditions\<close>: the iterator reads element \<open>i\<close> of the list
  as the store has it now and stops when \<open>i\<close> is past its end. The first argument counts
  the elements the list had when the loop began.
\<close>

fun sanitize_loop_h ::
  "builtins \<Rightarrow> (store \<Rightarrow> addr \<Rightarrow> string) \<Rightarrow> nat \<Rightarrow> nat \<Rightarrow> store \<Rightarrow> val \<Rightarrow> val \<Rightarrow>
     store \<times> (py_error + unit)" where
  "sanitize_loop_h B R 0 i st conditions sanitized = (st, Inr ())"
| "sanitize_loop_h B R (Suc n) i st conditions sanitized =
     (case h_list st conditions of
        None \<Rightarrow> (st, Inr ())
      | Some xs \<Rightarrow>
          if i < length xs then
            (case h_dict st (xs ! i) of
               None \<Rightarrow> sanitize_loop_h B R n (i + 1) st conditions sanitized
             | Some c \<Rightarrow>
                 (case sanitize_condition_h B R st (xs ! i) of
                    (st1, Inl e) \<Rightarrow> (st1, Inl e)
                  | (st1, Inr sanitized_condition) \<Rightarrow>
                      if h_truthy st1 sanitized_condition
                      then sanitize_loop_h B R n (i + 1)
                             (h_append st1 (h_get (h_fields st1 sanitized) ''conditions'' VNone)
                                sanitized_condition)
                             conditions sanitized
                      else sanitize_loop_h B R n (i + 1) st1 conditions sanitized))
          else (st, Inr ()))"

definition sanitize_strategy_h ::
  "builtins \<Rightarrow> (store \<Rightarrow> addr \<Rightarrow> string) \<Rightarrow> store \<Rightarrow> val \<Rightarrow> store \<times> (py_error + val)" where
  "sanitize_strategy_h B R st strategy =
     (case h_dict st strategy of
        None \<Rightarrow>
          (case h_alloc st (OList []) of
             (st1, conds) \<Rightarrow>
               (case h_alloc st1 (ODict [(''name'', VStr ''Invalid Strategy''),
                                         (''description'', VStr []), (''conditions'', conds)]) of
                  (st2, r) \<Rightarrow> (st2, Inr r)))
      | Some d \<Rightarrow>
          (case h_get d ''name'' (VStr ''Unnamed Strategy'') of
             VStr s \<Rightarrow>
               (case h_alloc st (OList []) of
                  (st1, conds) \<Rightarrow>
               (case h_alloc st1 (ODict [(''name'', VStr (py_strip s)),
                                         (''description'', h_get d ''description'' (VStr [])),
                                         (''conditions'', conds)]) of
                  (st2, sanitized) \<Rightarrow>
               (case h_alloc st2 (OList []) of
                  (st3, dflt) \<Rightarrow>
               (case (case h_list st3 (h_get (h_fields st3 strategy) ''conditions'' dflt) of
                        Some xs \<Rightarrow> (st3, h_get (h_fields st3 strategy) ''conditions'' dflt)
                      | None \<Rightarrow> h_alloc st3 (OList [])) of
                  (st4, conditions) \<Rightarrow>
               (case sanitize_loop_h B R ((case h_list st4 conditions of Some xs \<Rightarrow> length xs | None \<Rightarrow> 0)) 0
                       st4 conditions sanitized of
                  (st5, Inl e) \<Rightarrow> (st5, Inl e)
                | (st5, Inr u) \<Rightarrow> (st5, Inr sanitized))))))
           | _ \<Rightarrow> (st, Inl AttributeError)))"

definition unchanged :: "store \<Rightarrow> store \<Rightarrow> bool" where
  \<comment> \<open>Every object of the first store is still there, the same, in the second.\<close>
  "unchanged st st' \<longleftrightarrow> length st \<le> length st' \<and> take (length st) st' = st"

definition new_ref :: "store \<Rightarrow> val \<Rightarrow> bool" where
  \<comment> \<open>A reference to an object that the store \<open>st\<close> does not have.\<close>
  "new_ref st v = (case v of VRef a \<Rightarrow> length st \<le> a | _ \<Rightarrow> False)"

definition example_store :: store where
  \<comment> \<open>\<^verbatim>\<open>{"name": " Oversold ", "description": [], "conditions": [<oversold_condition>, 7]}\<close>
      at address 5, its parts before it.\<close>
  "example_store =
     [ODict [(''type'', VStr ''indicator''), (''name'', VStr ''rsi'')],
      ODict [(''type'', VStr ''value''), (''value'', VInt 30)],
      ODict [(''lhs'', VRef 0), (''operator'', VStr ''<''), (''rhs'', VRef 1)],
      OList [VRef 2, VInt 7],
      OList [],
      ODict [(''name'', VStr '' Oversold ''), (''description'', VRef 4), (''conditions'', VRef 3)]]"

definition example_repr :: "store \<Rightarrow> addr \<Rightarrow> string" where
  "example_repr st a = ''<object>''"

section \<open>Warnings are only appended\<close>

text \<open>
  Each validation function returns the warnings it was given with its own appended, and
  its verdict does not depend on them.
\<close>

lemma check_period_ws:
  "check_period name cfg ind ws =
     (case check_period name cfg ind [] of Inl e \<Rightarrow> Inl e | Inr (r, w) \<Rightarrow> Inr (r, ws @ w))"
  by (auto simp: check_period_def Let_def split: option.splits sum.splits bool.splits)

lemma check_side_fields_ws:
  "check_side_fields ind side ws =
     (case check_side_fields ind side [] of Inl e \<Rightarrow> Inl e | Inr (r, w) \<Rightarrow> Inr (r, ws @ w))"
  by (auto simp: check_side_fields_def Let_def split: option.splits)

lemma validate_indicator_rest_ws:
  "validate_indicator_rest name cfg ind side ws =
     (case validate_indicator_rest name cfg ind side [] of Inl e \<Rightarrow> Inl e | Inr (r, w) \<Rightarrow> Inr (r, ws @ w))"
  unfolding validate_indicator_rest_def
  apply (subst check_period_ws)
  apply (subst (2) check_side_fields_ws)
  apply (subst check_side_fields_ws)
  apply (auto split: option.splits sum.splits prod.splits)
  done

lemma validate_indicator_ws:
  "validate_indicator B ind side ws =
     (case validate_indicator B ind side [] of Inl e \<Rightarrow> Inl e | Inr (r, w) \<Rightarrow> Inr (r, ws @ w))"
proof -
  have a: "\<And>n c m. validate_indicator_rest n c ind side (ws @ [m]) =
     (case validate_indicator_rest n c ind side [m] of Inl e \<Rightarrow> Inl e | Inr (r, w) \<Rightarrow> Inr (r, ws @ w))"
    subgoal for n c m
      using validate_indicator_rest_ws[of n c ind side "ws @ [m]"] validate_indicator_rest_ws[of n c ind side "[m]"]
      by (auto split: sum.splits)
    done
  show ?thesis
    unfolding validate_indicator_def Let_def
    by (auto simp: a validate_indicator_rest_ws[where ws=ws] split: option.splits sum.splits prod.splits json.splits)
qed

lemma validate_operand_ws:
  "validate_operand B v side ws =
     (case validate_operand B v side [] of Inl e \<Rightarrow> Inl e | Inr (r, w) \<Rightarrow> Inr (r, ws @ w))"
  unfolding validate_operand_def
  apply (subst validate_indicator_ws)
  apply (auto split: option.splits sum.splits prod.splits json.splits)
  done

lemma validate_operand_app:
  "validate_operand B v s (ws @ w1) =
     (case validate_operand B v s w1 of Inl e \<Rightarrow> Inl e | Inr (r, w) \<Rightarrow> Inr (r, ws @ w))"
  using validate_operand_ws[of B v s "ws @ w1"] validate_operand_ws[of B v s "w1"]
  by (auto split: sum.splits)

lemma validate_condition_ws:
  "validate_condition B c i ws =
     (case validate_condition B c i [] of Inl e \<Rightarrow> Inl e | Inr (r, w) \<Rightarrow> Inr (r, ws @ w))"
proof (cases c)
  case (JDict d)
  show ?thesis
  proof (cases "map_of d ''lhs''")
    case None
    with JDict show ?thesis by (simp add: validate_condition_def)
  next
    case lhs: (Some l)
    show ?thesis
    proof (cases "map_of d ''operator''")
      case None
      with JDict lhs show ?thesis by (simp add: validate_condition_def)
    next
      case op: (Some operator)
      show ?thesis
      proof (cases "map_of d ''rhs''")
        case None
        with JDict lhs op show ?thesis by (simp add: validate_condition_def)
      next
        case rhs: (Some r)
        show ?thesis
        proof (cases "in_strs operator VALID_OPERATORS")
          case False
          with JDict lhs op rhs show ?thesis by (simp add: validate_condition_def)
        next
          case True
          define w0 where "w0 = (if operator = JStr approx_op \<and> map_of d ''tolerance'' = None
                             then [''Condition '' @ str_of_nat (i + 1) @ '': ''
                                          @ quoted approx_op
                                          @ '' operator without 'tolerance' - defaulting to 1%'']
                             else [])"
          have eq: "\<And>ws. validate_condition B c i ws =
             (case validate_operand B l ''lhs'' (ws @ w0) of
                    Inl e \<Rightarrow> Inl e
                  | Inr ((lhs_valid, lhs_error), ws2) \<Rightarrow>
                      if \<not> lhs_valid then Inr ((False, ''LHS error: '' @ lhs_error), ws2)
                      else
                        (case validate_operand B r ''rhs'' ws2 of
                           Inl e \<Rightarrow> Inl e
                         | Inr ((rhs_valid, rhs_error), ws3) \<Rightarrow>
                             if \<not> rhs_valid then Inr ((False, ''RHS error: '' @ rhs_error), ws3)
                             else Inr ((True, []), ws3)))"
            using JDict lhs op rhs True by (simp add: validate_condition_def w0_def)
          show ?thesis
            unfolding eq
            apply (simp add: validate_operand_app[of B l "''lhs''" ws w0])
            apply (cases "validate_operand B l ''lhs'' w0")
             apply simp
            apply (clarsimp simp: validate_operand_app[of B r "''rhs''" ws])
            apply (auto split: sum.splits)
            done
        qed
      qed
    qed
  qed
qed (simp_all add: validate_condition_def)

lemma validate_condition_result:
  "validate_condition B c i ws = Inl e \<longleftrightarrow> condition_result B c i = Inl e"
  "validate_condition B c i ws = Inr (r, ws') \<Longrightarrow> condition_result B c i = Inr r"
  "condition_result B c i = Inr r \<Longrightarrow> \<exists>ws'. validate_condition B c i ws = Inr (r, ws')"
  using validate_condition_ws[of B c i ws]
  by (auto simp: condition_result_def split: sum.splits prod.splits)

section \<open>One condition: the first failing check is the one reported\<close>

lemma validate_condition_keys:
  assumes "map_of d ''lhs'' = Some l" "map_of d ''operator'' = Some operator"
    "map_of d ''rhs'' = Some r" "in_strs operator VALID_OPERATORS"
  shows "condition_result B (JDict d) i =
    (case validate_operand B l ''lhs'' [] of
       Inl e \<Rightarrow> Inl e
     | Inr ((lhs_valid, lhs_error), ws2) \<Rightarrow>
         if \<not> lhs_valid then Inr (False, ''LHS error: '' @ lhs_error)
         else
           (case validate_operand B r ''rhs'' [] of
              Inl e \<Rightarrow> Inl e
            | Inr ((rhs_valid, rhs_error), ws3) \<Rightarrow>
                if \<not> rhs_valid then Inr (False, ''RHS error: '' @ rhs_error)
                else Inr (True, [])))"
proof -
  define W0 where "W0 = (if operator = JStr approx_op \<and> map_of d ''tolerance'' = None
               then [''Condition '' @ str_of_nat (i + 1) @ '': '' @ quoted approx_op
                          @ '' operator without 'tolerance' - defaulting to 1%'']
               else [])"
  have vc: "validate_condition B (JDict d) i [] =
      (case validate_operand B l ''lhs'' W0 of
         Inl e \<Rightarrow> Inl e
       | Inr ((lhs_valid, lhs_error), ws2) \<Rightarrow>
           if \<not> lhs_valid then Inr ((False, ''LHS error: '' @ lhs_error), ws2)
           else
             (case validate_operand B r ''rhs'' ws2 of
                Inl e \<Rightarrow> Inl e
              | Inr ((rhs_valid, rhs_error), ws3) \<Rightarrow>
                  if \<not> rhs_valid then Inr ((False, ''RHS error: '' @ rhs_error), ws3)
                  else Inr ((True, []), ws3)))"
    using assms by (simp add: validate_condition_def W0_def)
  note L = validate_operand_ws[of B l "''lhs''" W0]
  show ?thesis
  proof (cases "validate_operand B l ''lhs'' []")
    case (Inl e)
    with L vc show ?thesis by (simp add: condition_result_def)
  next
    case (Inr x)
    obtain ok reason w where x: "x = ((ok, reason), w)" by (cases x) auto
    note R = validate_operand_ws[of B r "''rhs''" "W0 @ w"]
    show ?thesis
    proof (cases ok)
      case False
      with L vc Inr x show ?thesis by (simp add: condition_result_def)
    next
      case True
      with L R vc Inr x show ?thesis
        by (cases "validate_operand B r ''rhs'' []") (auto simp: condition_result_def)
    qed
  qed
qed



lemma condition_result_missing_key:
  "map_of c ''lhs'' = None \<Longrightarrow>
     condition_result B (JDict c) i = Inr (False, ''Missing 'lhs' (left-hand side)'')"
  "map_of c ''lhs'' = Some l \<Longrightarrow> map_of c ''operator'' = None \<Longrightarrow>
     condition_result B (JDict c) i = Inr (False, ''Missing '' @ quoted ''operator'')"
  "map_of c ''lhs'' = Some l \<Longrightarrow> map_of c ''operator'' = Some operator \<Longrightarrow> map_of c ''rhs'' = None \<Longrightarrow>
     condition_result B (JDict c) i = Inr (False, ''Missing 'rhs' (right-hand side)'')"
  "map_of c ''lhs'' = Some l \<Longrightarrow> map_of c ''operator'' = Some operator \<Longrightarrow> map_of c ''rhs'' = Some r \<Longrightarrow>
   \<not> in_strs operator VALID_OPERATORS \<Longrightarrow>
     condition_result B (JDict c) i =
       Inr (False, ''Invalid operator '' @ quoted (py_str B operator) @ ''. Valid: ''
                            @ repr_str_list VALID_OPERATORS)"
  by (simp_all add: condition_result_def validate_condition_def)

lemma first_failure_missing_key:
  "map_of c ''lhs'' = None \<Longrightarrow>
     first_failure (spec_condition_checks B c) = Inr (False, ''Missing 'lhs' (left-hand side)'')"
  "map_of c ''lhs'' = Some l \<Longrightarrow> map_of c ''operator'' = None \<Longrightarrow>
     first_failure (spec_condition_checks B c) = Inr (False, ''Missing '' @ quoted ''operator'')"
  "map_of c ''lhs'' = Some l \<Longrightarrow> map_of c ''operator'' = Some operator \<Longrightarrow> map_of c ''rhs'' = None \<Longrightarrow>
     first_failure (spec_condition_checks B c) = Inr (False, ''Missing 'rhs' (right-hand side)'')"
  "map_of c ''lhs'' = Some l \<Longrightarrow> map_of c ''operator'' = Some operator \<Longrightarrow> map_of c ''rhs'' = Some r \<Longrightarrow>
   \<not> in_strs operator VALID_OPERATORS \<Longrightarrow>
     first_failure (spec_condition_checks B c) =
       Inr (False, ''Invalid operator '' @ quoted (py_str B operator) @ ''. Valid: ''
                            @ repr_str_list VALID_OPERATORS)"
  by (simp_all add: spec_condition_checks_def)

lemma first_failure_operands:
  assumes "map_of c ''lhs'' = Some l" "map_of c ''operator'' = Some operator"
    "map_of c ''rhs'' = Some r" "in_strs operator VALID_OPERATORS"
  shows "first_failure (spec_condition_checks B c) =
    (case validate_operand B l ''lhs'' [] of
       Inl e \<Rightarrow> Inl e
     | Inr ((lhs_valid, lhs_error), ws2) \<Rightarrow>
         if \<not> lhs_valid then Inr (False, ''LHS error: '' @ lhs_error)
         else
           (case validate_operand B r ''rhs'' [] of
              Inl e \<Rightarrow> Inl e
            | Inr ((rhs_valid, rhs_error), ws3) \<Rightarrow>
                if \<not> rhs_valid then Inr (False, ''RHS error: '' @ rhs_error)
                else Inr (True, [])))"
proof (cases "validate_operand B l ''lhs'' []")
  case (Inl e)
  with assms show ?thesis by (simp add: spec_condition_checks_def operand_check_def)
next
  case (Inr x)
  obtain ok reason w where x: "x = ((ok, reason), w)" by (cases x) auto
  show ?thesis
  proof (cases ok)
    case False
    with assms Inr x show ?thesis by (simp add: spec_condition_checks_def operand_check_def)
  next
    case True
    show ?thesis
    proof (cases "validate_operand B r ''rhs'' []")
      case (Inl e)
      with assms \<open>validate_operand B l ''lhs'' [] = Inr x\<close> x True show ?thesis
        by (simp add: spec_condition_checks_def operand_check_def)
    next
      case r: (Inr y)
      obtain ok' reason' w' where y: "y = ((ok', reason'), w')" by (cases y) auto
      from assms Inr x True r y show ?thesis
        by (simp add: spec_condition_checks_def operand_check_def)
    qed
  qed
qed

text \<open>
  C10. Of one condition object \<^verbatim>\<open>validate_condition\<close> reports at most one reason: that of
  the first failing check in the order lhs key, operator key, rhs key, operator validity,
  LHS operand, RHS operand. Whatever the warnings so far, its verdict is \<open>first_failure\<close>
  of these checks, so that a failing LHS operand hides every problem of the RHS operand.
\<close>

theorem validate_condition_reports_first_failure:
  "(case validate_condition B (JDict c) i ws of Inl e \<Rightarrow> Inl e | Inr (r, w) \<Rightarrow> Inr r)
     = first_failure (spec_condition_checks B c)"
proof -
  have "(case validate_condition B (JDict c) i ws of Inl e \<Rightarrow> Inl e | Inr (r, w) \<Rightarrow> Inr r)
     = condition_result B (JDict c) i"
  proof (cases "validate_condition B (JDict c) i []")
    case (Inl e)
    with validate_condition_ws[of B "JDict c" i ws] show ?thesis
      by (simp add: condition_result_def)
  next
    case (Inr x)
    obtain r w where "x = (r, w)" by (cases x) auto
    with Inr validate_condition_ws[of B "JDict c" i ws] show ?thesis
      by (simp add: condition_result_def)
  qed
  also have "\<dots> = first_failure (spec_condition_checks B c)"
  proof (cases "map_of c ''lhs''")
    case None
    show ?thesis
      by (simp only: condition_result_missing_key(1)[OF None]
            first_failure_missing_key(1)[OF None])
  next
    case l: (Some l)
    show ?thesis
    proof (cases "map_of c ''operator''")
      case None
      show ?thesis
        by (simp only: condition_result_missing_key(2)[OF l None]
              first_failure_missing_key(2)[OF l None])
    next
      case op: (Some operator)
      show ?thesis
      proof (cases "map_of c ''rhs''")
        case None
        show ?thesis
          by (simp only: condition_result_missing_key(3)[OF l op None]
                first_failure_missing_key(3)[OF l op None])
      next
        case r: (Some r)
        show ?thesis
        proof (cases "in_strs operator VALID_OPERATORS")
          case False
          show ?thesis
            by (simp only: condition_result_missing_key(4)[OF l op r False]
                  first_failure_missing_key(4)[OF l op r False])
        next
          case True
          show ?thesis
            by (simp only: validate_condition_keys[OF l op r True]
                  first_failure_operands[OF l op r True])
        qed
      qed
    qed
  qed
  finally show ?thesis .
qed

section \<open>The loop over the conditions\<close>

lemma upt_0_Suc_shift: "[0..<Suc n] = 0 # map Suc [0..<n]"
  by (simp add: upt_conv_Cons map_Suc_upt del: upt_Suc)

lemma validate_conditions_errors:
  assumes "\<forall>j<length cs. \<exists>r. condition_result B (cs ! j) (i + j) = Inr r"
  shows "\<exists>ws'. validate_conditions B cs i es ws =
           Inr (es @ concat (map (\<lambda>j. case condition_result B (cs ! j) (i + j) of
                                         Inr (False, reason) \<Rightarrow>
                                           [''Condition '' @ str_of_nat (i + j + 1) @ '': '' @ reason]
                                       | _ \<Rightarrow> []) [0..<length cs]), ws')"
  using assms
proof (induction cs arbitrary: i es ws)
  case Nil
  then show ?case by simp
next
  case (Cons c cs)
  from Cons.prems have "\<exists>r. condition_result B c i = Inr r" by fastforce
  then obtain ok reason where r: "condition_result B c i = Inr (ok, reason)" by auto
  then obtain ws1 where v: "validate_condition B c i ws = Inr ((ok, reason), ws1)"
    using validate_condition_result(3) by blast
  have rest: "\<forall>j<length cs. \<exists>r. condition_result B (cs ! j) (Suc i + j) = Inr r"
    using Cons.prems by fastforce
  define es1 where "es1 = (if \<not> ok then es @ [''Condition '' @ str_of_nat (i + 1) @ '': '' @ reason] else es)"
  from Cons.IH[OF rest, of es1 ws1] obtain ws' where
    ih: "validate_conditions B cs (Suc i) es1 ws1 =
           Inr (es1 @ concat (map (\<lambda>j. case condition_result B (cs ! j) (Suc i + j) of
                                         Inr (False, reason) \<Rightarrow>
                                           [''Condition '' @ str_of_nat (Suc i + j + 1) @ '': '' @ reason]
                                       | _ \<Rightarrow> []) [0..<length cs]), ws')" by blast
  have "validate_conditions B (c # cs) i es ws = validate_conditions B cs (Suc i) es1 ws1"
    using v by (simp add: es1_def)
  moreover have "es1 @ concat (map (\<lambda>j. case condition_result B (cs ! j) (Suc i + j) of
                                         Inr (False, reason) \<Rightarrow>
                                           [''Condition '' @ str_of_nat (Suc i + j + 1) @ '': '' @ reason]
                                       | _ \<Rightarrow> []) [0..<length cs])
      = es @ concat (map (\<lambda>j. case condition_result B ((c # cs) ! j) (i + j) of
                                         Inr (False, reason) \<Rightarrow>
                                           [''Condition '' @ str_of_nat (i + j + 1) @ '': '' @ reason]
                                       | _ \<Rightarrow> []) [0..<length (c # cs)])"
    using r by (simp add: upt_0_Suc_shift es1_def comp_def del: upt_Suc
          cong: sum.case_cong prod.case_cong bool.case_cong)
  ultimately show ?case using ih by simp
qed

section \<open>Every condition is validated\<close>

text \<open>
  When the \<^verbatim>\<open>conditions\<close> field is a non-empty list, no element of which makes the
  validation raise, \<^verbatim>\<open>validate_strategy\<close> returns, and its errors are those of the name
  check followed, for each position \<open>i\<close> in order, by exactly one error
  \<^verbatim>\<open>Condition {i+1}: {reason}\<close> when the condition at \<open>i\<close> fails and by nothing when it
  passes.
\<close>

lemma errors_of_conditions_that_do_not_raise:
  assumes "map_of d ''conditions'' = Some (JList cs)"
    and "cs \<noteq> []"
    and "\<forall>i<length cs. \<exists>r. condition_result B (cs ! i) i = Inr r"
  shows "let errors = name_errors d @
               concat (map (\<lambda>i. case condition_result B (cs ! i) i of
                                    Inr (False, reason) \<Rightarrow>
                                      [''Condition '' @ str_of_nat (i + 1) @ '': '' @ reason]
                                  | _ \<Rightarrow> []) [0..<length cs])
         in \<exists>ws. validate_strategy B (JDict d) = Inr (errors = [], errors, ws)"
proof -
  from assms(3) have "\<forall>j<length cs. \<exists>r. condition_result B (cs ! j) (0 + j) = Inr r"
    by simp
  from validate_conditions_errors[OF this] obtain ws' where
    "validate_conditions B cs 0 (name_errors d)
        (if map_of d ''description'' = None
         then [''Missing 'description' field - recommended for clarity''] else []) =
       Inr (name_errors d @
               concat (map (\<lambda>j. case condition_result B (cs ! j) (0 + j) of
                                    Inr (False, reason) \<Rightarrow>
                                      [''Condition '' @ str_of_nat (0 + j + 1) @ '': '' @ reason]
                                  | _ \<Rightarrow> []) [0..<length cs]), ws')"
    by blast
  with assms(1,2) show ?thesis
    by (simp add: validate_strategy_def Let_def
          cong: sum.case_cong prod.case_cong bool.case_cong)
qed

lemma errors_of_conditions_that_do_not_raise_example:
  "\<exists>ws. validate_strategy example_builtins
          (JDict [(''name'', JStr ''Oversold''),
                  (''conditions'', JList [no_lhs_condition, oversold_condition, JInt 7])]) =
        Inr (False,
             [''Condition 1: Missing 'lhs' (left-hand side)'',
              ''Condition 3: Condition must be an object''], ws)"
proof -
  let ?cs = "[no_lhs_condition, oversold_condition, JInt 7]"
  let ?d = "[(''name'', JStr ''Oversold''), (''conditions'', JList ?cs)]"
  have c0: "condition_result example_builtins no_lhs_condition 0 =
              Inr (False, ''Missing 'lhs' (left-hand side)'')"
    by code_simp
  have c1: "condition_result example_builtins oversold_condition 1 = Inr (True, [])"
    by code_simp
  have c2: "condition_result example_builtins (JInt 7) 2 = Inr (False, ''Condition must be an object'')"
    by code_simp
  have h1: "map_of ?d ''conditions'' = Some (JList ?cs)" by simp
  have h2: "?cs \<noteq> []" by simp
  have h3: "\<forall>i<length ?cs. \<exists>r. condition_result example_builtins (?cs ! i) i = Inr r"
    using c0 c1 c2 by (auto simp: less_Suc_eq numeral_2_eq_2 numeral_3_eq_3)
  have n: "name_errors ?d = []" by code_simp
  have s1: "str_of_nat (Suc 0) = ''1''" and s3: "str_of_nat 3 = ''3''" by code_simp+
  have c1': "condition_result example_builtins oversold_condition (Suc 0) = Inr (True, [])"
    using c1 by simp
  have u: "[0..<length ?cs] = [0, 1, 2]" by (simp add: upt_rec)
  show ?thesis
    using errors_of_conditions_that_do_not_raise[OF h1 h2 h3]
    unfolding Let_def u
    by (simp add: c0 c1' c2 n s1 s3)
qed

text \<open>
  C6. A condition on which \<^verbatim>\<open>validate_condition\<close> raises ends the loop over the
  conditions: of \<^verbatim>\<open>[{no lhs}, {lhs: indicator named 5}, 7]\<close> the first and the third
  condition fail, yet neither is reported, since the second one makes
  \<^verbatim>\<open>indicator["name"].lower()\<close> raise and \<^verbatim>\<open>validate_strategy\<close> returns no error list.
  The first condition alone, and the first with the third, are reported in full.
\<close>

theorem validate_strategy_aborts_on_raising_condition:
  "validate_strategy B
     (JDict [(''name'', JStr ''s''),
             (''conditions'', JList [
                no_lhs_condition,
                JDict [(''lhs'', JDict [(''type'', JStr ''indicator''), (''name'', JInt 5)]),
                       (''operator'', JStr ''>''),
                       (''rhs'', JDict [(''type'', JStr ''value''), (''value'', JInt 1)])],
                JInt 7])]) = Inl AttributeError
   \<and> validate_strategy B
     (JDict [(''name'', JStr ''s''), (''conditions'', JList [no_lhs_condition, JInt 7])]) =
       Inr (False,
            [''Condition 1: Missing 'lhs' (left-hand side)'',
             ''Condition 2: Condition must be an object''],
            [''Missing 'description' field - recommended for clarity''])"
proof -
  have s: "str_of_nat (Suc 0) = ''1''" "str_of_nat (Suc (Suc 0)) = ''2''" by code_simp+
  have n: "name_errors [(''name'', JStr ''s''), (''conditions'', c)] = []" for c
    by (simp add: name_errors_def) code_simp
  show ?thesis
    by (simp add: validate_strategy_def validate_condition_def validate_operand_def
          validate_indicator_def no_lhs_condition_def in_strs_def VALID_OPERATORS_def n s)
qed

section \<open>Validity and the error list\<close>

lemma validate_conditions_all_pass_from:
  assumes "\<forall>j<length cs. condition_result B (cs ! j) (i + j) = Inr (True, [])"
  shows "\<exists>ws'. validate_conditions B cs i es ws = Inr (es, ws')"
  using assms
proof (induction cs arbitrary: i ws)
  case Nil
  then show ?case by simp
next
  case (Cons c cs)
  from Cons.prems have "condition_result B c i = Inr (True, [])" by fastforce
  then obtain ws1 where v: "validate_condition B c i ws = Inr ((True, []), ws1)"
    using validate_condition_result(3) by blast
  have "\<forall>j<length cs. condition_result B (cs ! j) (Suc i + j) = Inr (True, [])"
    using Cons.prems by fastforce
  from Cons.IH[OF this, of ws1] v show ?case by simp
qed

lemma validate_conditions_all_pass:
  assumes "\<forall>i<length cs. condition_result B (cs ! i) i = Inr (True, [])"
  shows "\<exists>ws'. validate_conditions B cs 0 es ws = Inr (es, ws')"
  using validate_conditions_all_pass_from[of cs B 0 es ws] assms by simp

text \<open>
  C7, as amended. Whenever \<^verbatim>\<open>validate_strategy\<close> returns, \<^verbatim>\<open>is_valid\<close> is true exactly
  when the error list is empty. A strategy object with a non-blank string name and a
  non-empty list of conditions, each of which passes \<^verbatim>\<open>validate_condition\<close>, is valid with
  no error, whatever warnings were collected.
\<close>

theorem validate_strategy_valid_iff_no_errors:
  "(\<forall>is_valid errors warnings.
       validate_strategy B s = Inr (is_valid, errors, warnings) \<longrightarrow> (is_valid \<longleftrightarrow> errors = []))
   \<and> (\<forall>d n cs.
         s = JDict d \<and> map_of d ''name'' = Some (JStr n) \<and> py_strip n \<noteq> [] \<and>
         map_of d ''conditions'' = Some (JList cs) \<and> cs \<noteq> [] \<and>
         (\<forall>i<length cs. condition_result B (cs ! i) i = Inr (True, []))
         \<longrightarrow> (\<exists>warnings. validate_strategy B s = Inr (True, [], warnings)))"
proof (intro conjI allI impI)
  fix is_valid errors warnings
  assume "validate_strategy B s = Inr (is_valid, errors, warnings)"
  then show "is_valid \<longleftrightarrow> errors = []"
    by (cases s) (auto simp: validate_strategy_def Let_def split: sum.splits prod.splits)
next
  fix d n cs
  assume a: "s = JDict d \<and> map_of d ''name'' = Some (JStr n) \<and> py_strip n \<noteq> [] \<and>
         map_of d ''conditions'' = Some (JList cs) \<and> cs \<noteq> [] \<and>
         (\<forall>i<length cs. condition_result B (cs ! i) i = Inr (True, []))"
  then have ne: "name_errors d = []" by (simp add: name_errors_def)
  from a validate_conditions_all_pass[of cs B "[]"] obtain ws' where
    "validate_conditions B cs 0 []
        (if map_of d ''description'' = None
         then [''Missing 'description' field - recommended for clarity''] else []) = Inr ([], ws')"
    by blast
  with a ne show "\<exists>warnings. validate_strategy B s = Inr (True, [], warnings)"
    by (simp add: validate_strategy_def Let_def)
qed

theorem validate_strategy_valid_iff_no_errors_witness:
  "validate_strategy example_builtins
     (JDict [(''name'', JStr ''Oversold''), (''conditions'', JList [oversold_condition])]) =
   Inr (True, [],
        [''Missing 'description' field - recommended for clarity'',
         quoted ''rsi'' @ '' missing 'timeframe' - defaulting to '' @ quoted ''daily'',
         quoted ''rsi'' @ '' missing 'period' - defaulting to 14''])
   \<and> (\<exists>warnings. validate_strategy example_builtins
          (JDict [(''name'', JStr ''Oversold''), (''conditions'', JList [oversold_condition])]) =
        Inr (True, [], warnings))"
proof -
  let ?d = "[(''name'', JStr ''Oversold''), (''conditions'', JList [oversold_condition])]"
  have c: "condition_result example_builtins oversold_condition 0 = Inr (True, [])"
    by code_simp
  have p: "py_strip ''Oversold'' \<noteq> []" by code_simp
  have h: "JDict ?d = JDict ?d \<and> map_of ?d ''name'' = Some (JStr ''Oversold'') \<and>
         py_strip ''Oversold'' \<noteq> [] \<and>
         map_of ?d ''conditions'' = Some (JList [oversold_condition]) \<and> [oversold_condition] \<noteq> [] \<and>
         (\<forall>i<length [oversold_condition].
             condition_result example_builtins ([oversold_condition] ! i) i = Inr (True, []))"
    using c p by simp
  have e: "validate_strategy example_builtins (JDict ?d) =
   Inr (True, [],
        [''Missing 'description' field - recommended for clarity'',
         quoted ''rsi'' @ '' missing 'timeframe' - defaulting to '' @ quoted ''daily'',
         quoted ''rsi'' @ '' missing 'period' - defaulting to 14''])"
    by code_simp
  from validate_strategy_valid_iff_no_errors[of example_builtins "JDict ?d"] h
  have "\<exists>warnings. validate_strategy example_builtins (JDict ?d) = Inr (True, [], warnings)"
    by blast
  with e show ?thesis by blast
qed

theorem all_conditions_pass_yet_invalid_counterexample:
  "condition_result example_builtins oversold_condition 0 = Inr (True, [])
   \<and> validate_strategy example_builtins (JDict [(''conditions'', JList [oversold_condition])]) =
       Inr (False, [''Missing required field: '' @ quoted ''name''],
            [''Missing 'description' field - recommended for clarity'',
             quoted ''rsi'' @ '' missing 'timeframe' - defaulting to '' @ quoted ''daily'',
             quoted ''rsi'' @ '' missing 'period' - defaulting to 14''])"
  by code_simp

section \<open>The fallback strategy and the inputs that raise\<close>

text \<open>
  C5, as amended. Sanitizing a value that is not an object returns the fallback strategy
  named \<^verbatim>\<open>Invalid Strategy\<close>, with an empty description and no condition.
\<close>

theorem sanitize_strategy_non_object:
  "(\<forall>d. strategy \<noteq> JDict d) \<longrightarrow>
     sanitize_strategy B strategy =
       Inr (JDict [(''name'', JStr ''Invalid Strategy''), (''description'', JStr ''''),
                   (''conditions'', JList [])])"
  by (cases strategy) (simp_all add: sanitize_strategy_def)

theorem sanitize_strategy_non_object_witness:
  "(\<forall>d. JNone \<noteq> JDict d) \<and>
   sanitize_strategy example_builtins JNone =
       Inr (JDict [(''name'', JStr ''Invalid Strategy''), (''description'', JStr ''''),
                   (''conditions'', JList [])])"
  using sanitize_strategy_non_object[of JNone example_builtins] by simp

theorem fallback_name_not_empty_counterexample:
  "sanitize_strategy example_builtins JNone \<noteq>
     Inr (JDict [(''name'', JStr ''''), (''description'', JStr ''''), (''conditions'', JList [])])
   \<and> (case sanitize_strategy example_builtins JNone of
         Inr (JDict d) \<Rightarrow> map_of d ''name'' = Some (JStr ''Invalid Strategy'')
       | _ \<Rightarrow> False)"
  by (simp add: sanitize_strategy_def)

text \<open>
  C2. \<^verbatim>\<open>sanitize_strategy\<close> raises on a name that is not a string
  (\<^verbatim>\<open>{"name": null}\<close>: \<^verbatim>\<open>None\<close> has no \<^verbatim>\<open>strip\<close>), on an offset that
  \<^verbatim>\<open>int()\<close> rejects (\<^verbatim>\<open>"offset": null\<close>), on a multiplier that \<^verbatim>\<open>float()\<close>
  rejects (\<^verbatim>\<open>"multiplier": null\<close>) and on \<^verbatim>\<open>params\<close> that is not an object.
\<close>

theorem sanitize_strategy_raises:
  "sanitize_strategy B (JDict [(''name'', JNone)]) = Inl AttributeError
   \<and> sanitize_strategy B (JDict [(''name'', JStr ''s''), (''conditions'', JList [
         JDict [(''lhs'', JDict [(''type'', JStr ''indicator''), (''name'', JStr ''close''),
                                 (''offset'', JNone)]),
                (''operator'', JStr ''>''),
                (''rhs'', JDict [(''type'', JStr ''value''), (''value'', JInt 1)])]])]) = Inl TypeError
   \<and> sanitize_strategy B (JDict [(''name'', JStr ''s''), (''conditions'', JList [
         JDict [(''lhs'', JDict [(''type'', JStr ''indicator''), (''name'', JStr ''close'')]),
                (''operator'', JStr ''>''),
                (''rhs'', JDict [(''type'', JStr ''indicator''), (''name'', JStr ''close''),
                                 (''multiplier'', JNone)])]])]) = Inl TypeError
   \<and> sanitize_strategy B (JDict [(''name'', JStr ''s''), (''conditions'', JList [
         JDict [(''lhs'', JDict [(''type'', JStr ''indicator''), (''name'', JStr ''sma''),
                                 (''params'', JList [])]),
                (''operator'', JStr ''>''),
                (''rhs'', JDict [(''type'', JStr ''value''), (''value'', JInt 1)])]])]) = Inl AttributeError"
  by (simp add: sanitize_strategy_def dict_get_def sanitize_condition_def sanitize_operand_def
        py_int_def py_float_def py_str_def py_lower_def lower_char_def is_ascii_def VALID_INDICATORS_def
        in_strs_def VALID_TIMEFRAMES_def is_number_def)

text \<open>
  C4. \<^verbatim>\<open>validate_strategy\<close> raises on an indicator operand whose name is not a string:
  \<^verbatim>\<open>indicator["name"].lower()\<close> is called with no type check. It also raises on
  \<^verbatim>\<open>params\<close> that is a number, and no error list is returned.
\<close>

theorem validate_strategy_raises:
  "validate_strategy B (JDict [(''name'', JStr ''s''), (''conditions'', JList [
         JDict [(''lhs'', JDict [(''type'', JStr ''indicator''), (''name'', JInt 5)]),
                (''operator'', JStr ''>''),
                (''rhs'', JDict [(''type'', JStr ''value''), (''value'', JInt 1)])]])]) = Inl AttributeError
   \<and> validate_strategy B (JDict [(''name'', JStr ''s''), (''conditions'', JList [
         JDict [(''lhs'', JDict [(''type'', JStr ''indicator''), (''name'', JStr ''sma''),
                                 (''params'', JInt 5)]),
                (''operator'', JStr ''>''),
                (''rhs'', JDict [(''type'', JStr ''value''), (''value'', JInt 1)])]])]) = Inl TypeError"
  by (simp add: validate_strategy_def validate_condition_def validate_operand_def
        validate_indicator_def validate_indicator_rest_def check_period_def py_contains_def
        dict_get_def in_strs_def VALID_OPERATORS_def VALID_INDICATORS_def py_lower_def
        lower_char_def is_ascii_def as_int_def)

section \<open>Fields that are meant for the RHS\<close>

lemma map_of_without_rhs_fields:
  "k \<noteq> ''multiplier'' \<Longrightarrow> k \<noteq> ''add_offset'' \<Longrightarrow> map_of (without_rhs_fields d) k = map_of d k"
  "map_of (without_rhs_fields d) ''multiplier'' = None"
  "map_of (without_rhs_fields d) ''add_offset'' = None"
  unfolding without_rhs_fields_def by (induction d) auto

lemma dict_get_without_rhs_fields:
  "k \<noteq> ''multiplier'' \<Longrightarrow> k \<noteq> ''add_offset'' \<Longrightarrow>
     dict_get (without_rhs_fields d) k x = dict_get d k x"
  by (simp add: dict_get_def map_of_without_rhs_fields)

lemma check_period_without_rhs_fields:
  "check_period name cfg (without_rhs_fields d) ws = check_period name cfg d ws"
  by (cases cfg) (simp_all add: check_period_def dict_get_without_rhs_fields)

lemma check_side_fields_lhs:
  "check_side_fields d ''lhs'' ws = Inr ((True, []), ws @ lhs_field_warnings d)"
  by (simp add: check_side_fields_def lhs_field_warnings_def Let_def)

lemma check_side_fields_without:
  "check_side_fields (without_rhs_fields d) side ws = Inr ((True, []), ws)"
  by (simp add: check_side_fields_def map_of_without_rhs_fields)

lemma lhs_field_warnings_without [simp]:
  "lhs_field_warnings (without_rhs_fields d) = []"
  by (simp add: lhs_field_warnings_def map_of_without_rhs_fields)

lemma validate_indicator_rest_side_fields:
  "validate_indicator_rest name cfg d side ws =
    (case validate_indicator_rest name cfg (without_rhs_fields d) side ws of
       Inr ((True, reason), ws1) \<Rightarrow> check_side_fields d side ws1
     | other \<Rightarrow> other)"
  unfolding validate_indicator_rest_def check_period_without_rhs_fields check_side_fields_without
  by (simp add: map_of_without_rhs_fields split: sum.splits option.splits prod.splits)

lemma validate_indicator_side_fields:
  "validate_indicator B d side ws =
    (case validate_indicator B (without_rhs_fields d) side ws of
       Inr ((True, reason), ws1) \<Rightarrow> check_side_fields d side ws1
     | other \<Rightarrow> other)"
proof (cases "map_of d ''name''")
  case None
  then show ?thesis by (simp add: validate_indicator_def Let_def map_of_without_rhs_fields)
next
  case (Some nm)
  show ?thesis
  proof (cases nm)
    case (JStr s)
    show ?thesis
    proof (cases "map_of VALID_INDICATORS (py_lower B s)")
      case None
      with Some JStr show ?thesis by (simp add: validate_indicator_def Let_def map_of_without_rhs_fields)
    next
      case cfg: (Some cfg)
      show ?thesis
      proof (cases "map_of d ''timeframe''")
        case None
        let ?W = "ws @ [quoted (py_lower B s) @ '' missing 'timeframe' - defaulting to '' @ quoted ''daily'']"
        have L: "validate_indicator B d side ws =
                   validate_indicator_rest (py_lower B s) cfg d side ?W"
          using Some JStr cfg None by (simp add: validate_indicator_def Let_def)
        have R: "validate_indicator B (without_rhs_fields d) side ws =
                   validate_indicator_rest (py_lower B s) cfg (without_rhs_fields d) side ?W"
          using Some JStr cfg None by (simp add: validate_indicator_def Let_def map_of_without_rhs_fields)
        show ?thesis unfolding L R by (rule validate_indicator_rest_side_fields)
      next
        case tf: (Some tf)
        show ?thesis
        proof (cases "in_strs tf VALID_TIMEFRAMES")
          case False
          with Some JStr cfg tf show ?thesis
            by (simp add: validate_indicator_def Let_def map_of_without_rhs_fields)
        next
          case True
          have L: "validate_indicator B d side ws =
                     validate_indicator_rest (py_lower B s) cfg d side ws"
            using Some JStr cfg tf True by (simp add: validate_indicator_def Let_def)
          have R: "validate_indicator B (without_rhs_fields d) side ws =
                     validate_indicator_rest (py_lower B s) cfg (without_rhs_fields d) side ws"
            using Some JStr cfg tf True
            by (simp add: validate_indicator_def Let_def map_of_without_rhs_fields)
          show ?thesis unfolding L R by (rule validate_indicator_rest_side_fields)
        qed
      qed
    qed
  qed (use Some in \<open>simp_all add: validate_indicator_def Let_def map_of_without_rhs_fields\<close>)
qed

lemma check_side_fields_rhs:
  "check_side_fields d ''rhs'' ws =
     (if \<exists>m. map_of d ''multiplier'' = Some m \<and> \<not> is_number m
      then Inr ((False, '''multiplier' must be a number''), ws)
      else if \<exists>a. map_of d ''add_offset'' = Some a \<and> \<not> is_number a
      then Inr ((False, '''add_offset' must be a number''), ws)
      else Inr ((True, []), ws))"
  by (auto simp: check_side_fields_def split: option.splits)

lemma validate_indicator_True_reason:
  "validate_indicator B d side ws = Inr ((True, reason), ws') \<Longrightarrow> reason = []"
  by (auto simp: validate_indicator_def validate_indicator_rest_def check_side_fields_def Let_def
           split: option.splits json.splits if_splits sum.splits prod.splits)

text \<open>
  C8. An indicator operand is validated as the same operand without its
  \<^verbatim>\<open>multiplier\<close> and \<^verbatim>\<open>add_offset\<close> fields, and then, if that succeeds: on the LHS
  validation still succeeds and one warning is appended for each of the two fields that is
  present, whatever its value; on the RHS validation fails when a present field is not a
  number and succeeds otherwise.
\<close>

theorem rhs_only_fields_warn_on_lhs_fail_on_rhs:
  "validate_indicator B d ''lhs'' ws =
     (case validate_indicator B (without_rhs_fields d) ''lhs'' ws of
        Inr ((True, reason), ws1) \<Rightarrow> Inr ((True, reason), ws1 @ lhs_field_warnings d)
      | other \<Rightarrow> other)
   \<and> validate_indicator B d ''rhs'' ws =
     (case validate_indicator B (without_rhs_fields d) ''rhs'' ws of
        Inr ((True, reason), ws1) \<Rightarrow>
          (if \<exists>m. map_of d ''multiplier'' = Some m \<and> \<not> is_number m
           then Inr ((False, '''multiplier' must be a number''), ws1)
           else if \<exists>a. map_of d ''add_offset'' = Some a \<and> \<not> is_number a
           then Inr ((False, '''add_offset' must be a number''), ws1)
           else Inr ((True, reason), ws1))
      | other \<Rightarrow> other)"
proof
  show "validate_indicator B d ''lhs'' ws =
     (case validate_indicator B (without_rhs_fields d) ''lhs'' ws of
        Inr ((True, reason), ws1) \<Rightarrow> Inr ((True, reason), ws1 @ lhs_field_warnings d)
      | other \<Rightarrow> other)"
    using validate_indicator_side_fields[of B d "''lhs''" ws]
      validate_indicator_True_reason[of B "without_rhs_fields d" "''lhs''" ws]
    by (auto simp: check_side_fields_lhs split: sum.splits prod.splits bool.splits)
  show "validate_indicator B d ''rhs'' ws =
     (case validate_indicator B (without_rhs_fields d) ''rhs'' ws of
        Inr ((True, reason), ws1) \<Rightarrow>
          (if \<exists>m. map_of d ''multiplier'' = Some m \<and> \<not> is_number m
           then Inr ((False, '''multiplier' must be a number''), ws1)
           else if \<exists>a. map_of d ''add_offset'' = Some a \<and> \<not> is_number a
           then Inr ((False, '''add_offset' must be a number''), ws1)
           else Inr ((True, reason), ws1))
      | other \<Rightarrow> other)"
    using validate_indicator_side_fields[of B d "''rhs''" ws]
      validate_indicator_True_reason[of B "without_rhs_fields d" "''rhs''" ws]
    by (auto simp: check_side_fields_rhs split: sum.splits prod.splits bool.splits)
qed

theorem rhs_only_fields_warn_on_lhs_fail_on_rhs_witness:
  "validate_indicator example_builtins lhs_with_multiplier ''lhs'' [] =
     Inr ((True, []), ['''multiplier' on LHS will be ignored - only valid for RHS''])
   \<and> validate_indicator example_builtins lhs_with_multiplier ''rhs'' [] =
     Inr ((False, '''multiplier' must be a number''), [])"
proof -
  have w: "validate_indicator example_builtins (without_rhs_fields lhs_with_multiplier) ''lhs'' [] =
             Inr ((True, []), [])"
    "validate_indicator example_builtins (without_rhs_fields lhs_with_multiplier) ''rhs'' [] =
             Inr ((True, []), [])"
    by code_simp+
  have f: "lhs_field_warnings lhs_with_multiplier =
             ['''multiplier' on LHS will be ignored - only valid for RHS'']"
    by code_simp
  have m: "\<exists>m. map_of lhs_with_multiplier ''multiplier'' = Some m \<and> \<not> is_number m"
    by (simp add: lhs_with_multiplier_def is_number_def)
  show ?thesis
    using rhs_only_fields_warn_on_lhs_fail_on_rhs[of example_builtins lhs_with_multiplier "[]"]
    by (simp add: w f m)
qed

section \<open>The sanitizer builds conformant values\<close>

lemma py_lower_registry:
  "map_of VALID_INDICATORS n = Some cfg \<Longrightarrow> py_lower B n = n"
  by (auto simp: VALID_INDICATORS_def py_lower_def lower_char_def is_ascii_def is_ascii_def split: if_splits)

lemma leading_code_0_iff:
  "leading_code ws s = 0 \<longleftrightarrow> (\<forall>w\<in>set ws. w \<noteq> [] \<longrightarrow> take (length w) s \<noteq> w)"
  by (induction ws) auto

lemma strip_leading_fixed: "leading_code ws s = 0 \<Longrightarrow> strip_leading ws s = s"
  by (subst strip_leading.simps) simp

lemma strip_leading_no_lead: "leading_code ws (strip_leading ws s) = 0"
proof (induction ws s rule: strip_leading.induct)
  case (1 ws s)
  show ?case
  proof (cases "leading_code ws s = 0")
    case True
    then show ?thesis by (simp add: strip_leading_fixed)
  next
    case False
    with 1 have "leading_code ws (strip_leading ws (drop (leading_code ws s) s)) = 0" by simp
    moreover have "strip_leading ws s = strip_leading ws (drop (leading_code ws s) s)"
      using False by (subst strip_leading.simps) simp
    ultimately show ?thesis by simp
  qed
qed

lemma strip_leading_suffix: "\<exists>p. s = p @ strip_leading ws s"
proof (induction ws s rule: strip_leading.induct)
  case (1 ws s)
  show ?case
  proof (cases "leading_code ws s = 0")
    case True
    then show ?thesis by (simp add: strip_leading_fixed)
  next
    case False
    with 1 obtain p where p: "drop (leading_code ws s) s = p @ strip_leading ws (drop (leading_code ws s) s)"
      by blast
    have e: "strip_leading ws s = strip_leading ws (drop (leading_code ws s) s)"
      using False by (subst strip_leading.simps) simp
    have "s = take (leading_code ws s) s @ drop (leading_code ws s) s" by simp
    also have "\<dots> = (take (leading_code ws s) s @ p) @ strip_leading ws s"
      using p e by simp
    finally show ?thesis by blast
  qed
qed

lemma no_lead_prefix:
  assumes "leading_code ws (u @ q) = 0"
  shows "leading_code ws u = 0"
proof -
  from assms have n: "\<forall>w\<in>set ws. w \<noteq> [] \<longrightarrow> take (length w) (u @ q) \<noteq> w"
    by (simp only: leading_code_0_iff)
  have "take (length w) u \<noteq> w" if w: "w \<in> set ws" "w \<noteq> []" for w
  proof
    assume t: "take (length w) u = w"
    then have "length (take (length w) u) = length w" by simp
    then have "length w \<le> length u" by simp
    then have "take (length w) (u @ q) = take (length w) u" by simp
    with t have "take (length w) (u @ q) = w" by simp
    with n w show False by blast
  qed
  then show ?thesis by (simp only: leading_code_0_iff) blast
qed

lemma py_strip_idem: "py_strip (py_strip s) = py_strip s"
proof -
  define t where "t = strip_leading whitespace s"
  define v where "v = strip_leading (map rev whitespace) (rev t)"
  have u: "py_strip s = rev v" by (simp add: py_strip_def t_def v_def)
  obtain p where "rev t = p @ v" using strip_leading_suffix[of "rev t" "map rev whitespace"]
    by (auto simp: v_def)
  then have "rev (rev t) = rev (p @ v)" by simp
  then have "t = rev v @ rev p" by simp
  moreover have "leading_code whitespace t = 0" unfolding t_def by (rule strip_leading_no_lead)
  ultimately have "leading_code whitespace (rev v) = 0" using no_lead_prefix by simp
  then have a: "strip_leading whitespace (rev v) = rev v" by (rule strip_leading_fixed)
  have "leading_code (map rev whitespace) v = 0" unfolding v_def by (rule strip_leading_no_lead)
  then have b: "strip_leading (map rev whitespace) v = v" by (rule strip_leading_fixed)
  show ?thesis unfolding u by (simp add: py_strip_def a b)
qed

lemma registry_close: "map_of VALID_INDICATORS ''close'' = Some None"
  by (simp add: VALID_INDICATORS_def)

lemma registry_default_positive:
  "map_of VALID_INDICATORS n = Some (Some dp) \<Longrightarrow> 1 \<le> dp"
  by (auto simp: VALID_INDICATORS_def split: if_splits)

lemma in_strs_daily: "in_strs (JStr ''daily'') VALID_TIMEFRAMES"
  by (simp add: in_strs_def VALID_TIMEFRAMES_def)

lemma sanitize_operand_value:
  assumes "dict_get d ''type'' (JStr ''indicator'') = JStr ''value''"
    and "sanitize_operand B (JDict d) side = Inr (Some y)"
  shows "\<exists>x. y = JDict [(''type'', JStr ''value''), (''value'', x)] \<and> is_number x"
  using assms
  by (auto simp: sanitize_operand_def Let_def is_number_def split: sum.splits if_splits)

lemma sanitize_operand_indicator:
  assumes t: "dict_get d ''type'' (JStr ''indicator'') = JStr ''indicator''"
    and s: "sanitize_operand B (JDict d) side = Inr (Some y)"
  shows "conformant_operand side y"
proof -
  define name0 where "name0 = py_lower B (py_str B (dict_get d ''name'' (JStr ''close'')))"
  define name where "name = (if map_of VALID_INDICATORS name0 = None then ''close'' else name0)"
  define timeframe0 where "timeframe0 = dict_get d ''timeframe'' (JStr ''daily'')"
  define timeframe where "timeframe = (if \<not> in_strs timeframe0 VALID_TIMEFRAMES then JStr ''daily''
                                else timeframe0)"
  define P where "P = (case map_of VALID_INDICATORS name of
                    None \<Rightarrow> Inl KeyError
                  | Some None \<Rightarrow> Inr (JDict [])
                  | Some (Some default_period) \<Rightarrow>
                      (case dict_get d ''params'' (JDict []) of
                         JDict params \<Rightarrow>
                           (let period0 = dict_get params ''period'' (JInt default_period);
                                period = (if (case as_int period0 of None \<Rightarrow> True | Some p \<Rightarrow> p < 1)
                                          then JInt default_period else period0)
                            in Inr (JDict [(''period'', period)]))
                       | _ \<Rightarrow> Inl AttributeError))"
  define M where "M = (if map_of d ''multiplier'' \<noteq> None
                           then map_sum id (\<lambda>f. [(''multiplier'', JFloat f)])
                                  (py_float B (dict_get d ''multiplier'' (JFloat (Finite 1 0))))
                           else Inr [])"
  define A where "A = (if map_of d ''add_offset'' \<noteq> None
                              then map_sum id (\<lambda>f. [(''add_offset'', JFloat f)])
                                     (py_float B (dict_get d ''add_offset'' (JFloat (Finite 0 0))))
                              else Inr [])"
  have eq: "sanitize_operand B (JDict d) side =
     (case py_int B (dict_get d ''offset'' (JInt 0)) of
        Inl e \<Rightarrow> Inl e
      | Inr off \<Rightarrow>
         (case P of
            Inl e \<Rightarrow> Inl e
          | Inr params \<Rightarrow>
              if side = ''rhs'' then
                (case M of Inl e \<Rightarrow> Inl e
                 | Inr mult \<Rightarrow>
                     (case A of Inl e \<Rightarrow> Inl e
                      | Inr addo \<Rightarrow>
                          Inr (Some (JDict ([(''type'', JStr ''indicator''), (''name'', JStr name),
                                   (''timeframe'', timeframe), (''offset'', JInt (max 0 off)),
                                   (''params'', params)] @ mult @ addo)))))
              else Inr (Some (JDict [(''type'', JStr ''indicator''), (''name'', JStr name),
                                   (''timeframe'', timeframe), (''offset'', JInt (max 0 off)),
                                   (''params'', params)]))))"
    using t
    unfolding sanitize_operand_def Let_def name0_def name_def timeframe0_def timeframe_def
          P_def M_def A_def
    by (simp split del: if_split)
  from s eq obtain off where off: "py_int B (dict_get d ''offset'' (JInt 0)) = Inr off"
    by (cases "py_int B (dict_get d ''offset'' (JInt 0))") auto
  from s eq off obtain params where params: "P = Inr params"
    by (cases P) auto
  have reg: "\<exists>cfg. map_of VALID_INDICATORS name = Some cfg"
    using registry_close by (auto simp: name_def)
  then obtain cfg where cfg: "map_of VALID_INDICATORS name = Some cfg" by blast
  have tf: "in_strs timeframe VALID_TIMEFRAMES"
    using in_strs_daily by (simp add: timeframe_def)
  have ps: "(case cfg of
                 None \<Rightarrow> params = JDict []
               | Some default_period \<Rightarrow>
                   (\<exists>p i. params = JDict [(''period'', p)] \<and> as_int p = Some i \<and> 1 \<le> i))"
  proof (cases cfg)
    case None
    with params cfg show ?thesis by (simp add: P_def)
  next
    case (Some dp)
    with params cfg obtain pd where pd: "dict_get d ''params'' (JDict []) = JDict pd"
      by (cases "dict_get d ''params'' (JDict [])") (simp_all add: P_def)
    show ?thesis
    proof (cases "as_int (dict_get pd ''period'' (JInt dp))")
      case None
      with params cfg Some pd registry_default_positive[of name dp] show ?thesis
        by (auto simp: P_def Let_def as_int_def)
    next
      case i: (Some i)
      with params cfg Some pd registry_default_positive[of name dp] show ?thesis
        by (cases "i < 1") (auto simp: P_def Let_def as_int_def)
    qed
  qed
  show ?thesis
  proof (cases "side = ''rhs''")
    case False
    with s eq off params have "y = JDict ([(''type'', JStr ''indicator''), (''name'', JStr name),
                                   (''timeframe'', timeframe), (''offset'', JInt (max 0 off)),
                                   (''params'', params)] @ [])" by simp
    with False cfg tf ps show ?thesis
      unfolding conformant_operand_def by (intro disjI2 exI[of _ name] exI[of _ cfg]
        exI[of _ timeframe] exI[of _ "max 0 off"] exI[of _ params] exI[of _ "[]"]) simp
  next
    case True
    from s eq off params True obtain mult where mult: "M = Inr mult" by (cases M) auto
    from s eq off params True mult obtain addo where addo: "A = Inr addo" by (cases A) auto
    from s eq off params True mult addo
    have y: "y = JDict ([(''type'', JStr ''indicator''), (''name'', JStr name),
                                   (''timeframe'', timeframe), (''offset'', JInt (max 0 off)),
                                   (''params'', params)] @ (mult @ addo))" by simp
    have m: "mult = [] \<or> (\<exists>f. mult = [(''multiplier'', JFloat f)])"
      using mult
      by (cases "py_float B (dict_get d ''multiplier'' (JFloat (Finite 1 0)))")
         (auto simp: M_def split: if_splits)
    have a: "addo = [] \<or> (\<exists>f. addo = [(''add_offset'', JFloat f)])"
      using addo
      by (cases "py_float B (dict_get d ''add_offset'' (JFloat (Finite 0 0)))")
         (auto simp: A_def split: if_splits)
    have ex: "\<exists>mult' addo'. mult @ addo = mult' @ addo'
                       \<and> (mult' = [] \<or> (\<exists>f. mult' = [(''multiplier'', JFloat f)]))
                       \<and> (addo' = [] \<or> (\<exists>f. addo' = [(''add_offset'', JFloat f)]))"
      using m a by blast
    from y True cfg tf ps ex show ?thesis
      unfolding conformant_operand_def by (intro disjI2 exI[of _ name] exI[of _ cfg]
        exI[of _ timeframe] exI[of _ "max 0 off"] exI[of _ params] exI[of _ "mult @ addo"]) simp
  qed
qed

lemma sanitize_operand_conformant:
  assumes "sanitize_operand B v side = Inr (Some y)"
  shows "conformant_operand side y"
proof (cases v)
  case (JDict d)
  show ?thesis
  proof (cases "dict_get d ''type'' (JStr ''indicator'') = JStr ''value''")
    case True
    from sanitize_operand_value[OF True] assms JDict show ?thesis
      by (simp add: conformant_operand_def)
  next
    case False
    show ?thesis
    proof (cases "dict_get d ''type'' (JStr ''indicator'') = JStr ''indicator''")
      case True
      from sanitize_operand_indicator[OF True] assms JDict show ?thesis by simp
    next
      case nt: False
      with False assms JDict show ?thesis by (simp add: sanitize_operand_def)
    qed
  qed
qed (use assms in \<open>simp_all add: sanitize_operand_def\<close>)

lemma conformant_operand_cases:
  assumes "conformant_operand side y"
  obtains (val) x where "y = JDict [(''type'', JStr ''value''), (''value'', x)]" "is_number x"
  | (ind) n cfg tf off ps extra where
      "y = JDict ([(''type'', JStr ''indicator''), (''name'', JStr n), (''timeframe'', tf),
                   (''offset'', JInt off), (''params'', ps)] @ extra)"
      "map_of VALID_INDICATORS n = Some cfg" "in_strs tf VALID_TIMEFRAMES" "0 \<le> off"
      "case cfg of None \<Rightarrow> ps = JDict []
       | Some default_period \<Rightarrow> (\<exists>p i. ps = JDict [(''period'', p)] \<and> as_int p = Some i \<and> 1 \<le> i)"
      "if side = ''rhs''
       then \<exists>mult addo. extra = mult @ addo
              \<and> (mult = [] \<or> (\<exists>f. mult = [(''multiplier'', JFloat f)]))
              \<and> (addo = [] \<or> (\<exists>f. addo = [(''add_offset'', JFloat f)]))
       else extra = []"
  using assms unfolding conformant_operand_def by blast

lemma extra_fields_lookup:
  assumes "if side = ''rhs''
       then \<exists>mult addo. extra = mult @ addo
              \<and> (mult = [] \<or> (\<exists>f. mult = [(''multiplier'', JFloat f)]))
              \<and> (addo = [] \<or> (\<exists>f. addo = [(''add_offset'', JFloat f)]))
       else extra = []"
  shows "map_of extra ''multiplier'' = None \<or> (\<exists>f. map_of extra ''multiplier'' = Some (JFloat f))"
    and "map_of extra ''add_offset'' = None \<or> (\<exists>f. map_of extra ''add_offset'' = Some (JFloat f))"
    and "side \<noteq> ''rhs'' \<Longrightarrow> extra = []"
  using assms by (auto split: if_splits)

lemma check_period_conformant:
  assumes "case cfg of None \<Rightarrow> ps = JDict []
       | Some default_period \<Rightarrow> (\<exists>p i. ps = JDict [(''period'', p)] \<and> as_int p = Some i \<and> 1 \<le> i)"
    and "dict_get d ''params'' (JDict []) = ps"
  shows "check_period n cfg d ws = Inr (None, ws)"
  using assms
  by (cases cfg) (auto simp: check_period_def py_contains_def py_getitem_def)

lemma check_side_fields_conformant:
  assumes "map_of d ''multiplier'' = None \<or> (\<exists>f. map_of d ''multiplier'' = Some (JFloat f))"
    and "map_of d ''add_offset'' = None \<or> (\<exists>f. map_of d ''add_offset'' = Some (JFloat f))"
    and "side \<noteq> ''rhs'' \<Longrightarrow> map_of d ''multiplier'' = None \<and> map_of d ''add_offset'' = None"
  shows "check_side_fields d side ws = Inr ((True, []), ws)"
  using assms by (auto simp: check_side_fields_def is_number_def)

lemma validate_operand_conformant:
  assumes "conformant_operand side y"
  shows "validate_operand B y side ws = Inr ((True, []), ws)"
  using assms
proof (cases rule: conformant_operand_cases)
  case (val x)
  then show ?thesis by (simp add: validate_operand_def)
next
  case (ind n cfg tf off ps extra)
  let ?d = "[(''type'', JStr ''indicator''), (''name'', JStr n), (''timeframe'', tf),
                   (''offset'', JInt off), (''params'', ps)] @ extra"
  note ex = extra_fields_lookup[OF ind(6)]
  have cp: "check_period n cfg ?d ws = Inr (None, ws)"
    by (rule check_period_conformant[OF ind(5)]) (simp add: dict_get_def)
  have cs: "check_side_fields ?d side ws = Inr ((True, []), ws)"
    using ex by (intro check_side_fields_conformant) auto
  have rest: "validate_indicator_rest n cfg ?d side ws = Inr ((True, []), ws)"
    using ind(4) cp cs by (simp add: validate_indicator_rest_def as_int_def)
  have "validate_indicator B ?d side ws = Inr ((True, []), ws)"
    using ind(2,3) rest py_lower_registry[OF ind(2)]
    by (simp add: validate_indicator_def)
  then show ?thesis using ind(1) by (simp add: validate_operand_def)
qed

lemma sanitize_operand_indicator_eq:
  assumes t: "dict_get d ''type'' (JStr ''indicator'') = JStr ''indicator''"
    and d1: "name0 = py_lower B (py_str B (dict_get d ''name'' (JStr ''close'')))"
    and d2: "name = (if map_of VALID_INDICATORS name0 = None then ''close'' else name0)"
    and d3: "timeframe0 = dict_get d ''timeframe'' (JStr ''daily'')"
    and d4: "timeframe = (if \<not> in_strs timeframe0 VALID_TIMEFRAMES then JStr ''daily''
                                else timeframe0)"
    and d5: "P = (case map_of VALID_INDICATORS name of
                    None \<Rightarrow> Inl KeyError
                  | Some None \<Rightarrow> Inr (JDict [])
                  | Some (Some default_period) \<Rightarrow>
                      (case dict_get d ''params'' (JDict []) of
                         JDict params \<Rightarrow>
                           (let period0 = dict_get params ''period'' (JInt default_period);
                                period = (if (case as_int period0 of None \<Rightarrow> True | Some p \<Rightarrow> p < 1)
                                          then JInt default_period else period0)
                            in Inr (JDict [(''period'', period)]))
                       | _ \<Rightarrow> Inl AttributeError))"
    and d6: "M = (if map_of d ''multiplier'' \<noteq> None
                           then map_sum id (\<lambda>f. [(''multiplier'', JFloat f)])
                                  (py_float B (dict_get d ''multiplier'' (JFloat (Finite 1 0))))
                           else Inr [])"
    and d7: "A = (if map_of d ''add_offset'' \<noteq> None
                              then map_sum id (\<lambda>f. [(''add_offset'', JFloat f)])
                                     (py_float B (dict_get d ''add_offset'' (JFloat (Finite 0 0))))
                              else Inr [])"
  shows "sanitize_operand B (JDict d) side =
     (case py_int B (dict_get d ''offset'' (JInt 0)) of
        Inl e \<Rightarrow> Inl e
      | Inr off \<Rightarrow>
         (case P of
            Inl e \<Rightarrow> Inl e
          | Inr params \<Rightarrow>
              if side = ''rhs'' then
                (case M of Inl e \<Rightarrow> Inl e
                 | Inr mult \<Rightarrow>
                     (case A of Inl e \<Rightarrow> Inl e
                      | Inr addo \<Rightarrow>
                          Inr (Some (JDict ([(''type'', JStr ''indicator''), (''name'', JStr name),
                                   (''timeframe'', timeframe), (''offset'', JInt (max 0 off)),
                                   (''params'', params)] @ mult @ addo)))))
              else Inr (Some (JDict [(''type'', JStr ''indicator''), (''name'', JStr name),
                                   (''timeframe'', timeframe), (''offset'', JInt (max 0 off)),
                                   (''params'', params)]))))"
  using t
  unfolding sanitize_operand_def Let_def d1 d2 d3 d4 d5 d6 d7
  by (simp split del: if_split)

lemma sanitize_operand_fixed:
  assumes "conformant_operand side y"
  shows "sanitize_operand B y side = Inr (Some y)"
  using assms
proof (cases rule: conformant_operand_cases)
  case (val x)
  then show ?thesis by (simp add: sanitize_operand_def dict_get_def)
next
  case (ind n cfg tf off ps extra)
  let ?base = "[(''type'', JStr ''indicator''), (''name'', JStr n), (''timeframe'', tf),
                   (''offset'', JInt off), (''params'', ps)]"
  let ?d = "?base @ extra"
  have ty: "dict_get ?d ''type'' (JStr ''indicator'') = JStr ''indicator''"
    and nm: "dict_get ?d ''name'' (JStr ''close'') = JStr n"
    and tfg: "dict_get ?d ''timeframe'' (JStr ''daily'') = tf"
    and og: "dict_get ?d ''offset'' (JInt 0) = JInt off"
    and pg: "dict_get ?d ''params'' (JDict []) = ps"
    by (simp_all add: dict_get_def)
  have name: "py_lower B (py_str B (JStr n)) = n"
    using py_lower_registry[OF ind(2)] by (simp add: py_str_def)
  define P where "P = (case map_of VALID_INDICATORS n of
                    None \<Rightarrow> Inl KeyError
                  | Some None \<Rightarrow> Inr (JDict [])
                  | Some (Some default_period) \<Rightarrow>
                      (case dict_get ?d ''params'' (JDict []) of
                         JDict params \<Rightarrow>
                           (let period0 = dict_get params ''period'' (JInt default_period);
                                period = (if (case as_int period0 of None \<Rightarrow> True | Some p \<Rightarrow> p < 1)
                                          then JInt default_period else period0)
                            in Inr (JDict [(''period'', period)]))
                       | _ \<Rightarrow> Inl AttributeError))"
  define M where "M = (if map_of ?d ''multiplier'' \<noteq> None
                           then map_sum id (\<lambda>f. [(''multiplier'', JFloat f)])
                                  (py_float B (dict_get ?d ''multiplier'' (JFloat (Finite 1 0))))
                           else Inr [])"
  define A where "A = (if map_of ?d ''add_offset'' \<noteq> None
                              then map_sum id (\<lambda>f. [(''add_offset'', JFloat f)])
                                     (py_float B (dict_get ?d ''add_offset'' (JFloat (Finite 0 0))))
                              else Inr [])"
  have Pv: "P = Inr ps"
    unfolding P_def pg using ind(2,5) by (cases cfg) (auto simp: dict_get_def)
  have eq0: "sanitize_operand B (JDict ?d) side =
     (case py_int B (dict_get ?d ''offset'' (JInt 0)) of
        Inl e \<Rightarrow> Inl e
      | Inr off \<Rightarrow>
     (case P of
            Inl e \<Rightarrow> Inl e
          | Inr params \<Rightarrow>
              if side = ''rhs'' then
                (case M of Inl e \<Rightarrow> Inl e
                 | Inr mult \<Rightarrow>
                     (case A of Inl e \<Rightarrow> Inl e
                      | Inr addo \<Rightarrow>
                          Inr (Some (JDict ([(''type'', JStr ''indicator''), (''name'', JStr n),
                                   (''timeframe'', tf), (''offset'', JInt (max 0 off)),
                                   (''params'', params)] @ mult @ addo)))))
              else Inr (Some (JDict [(''type'', JStr ''indicator''), (''name'', JStr n),
                                   (''timeframe'', tf), (''offset'', JInt (max 0 off)),
                                   (''params'', params)]))))"
  proof (rule sanitize_operand_indicator_eq[OF ty, where ?name0.0 = n and timeframe0 = tf])
    show "n = py_lower B (py_str B (dict_get ?d ''name'' (JStr ''close'')))"
      unfolding nm name ..
    show "n = (if map_of VALID_INDICATORS n = None then ''close'' else n)"
      using ind(2) by simp
    show "tf = dict_get ?d ''timeframe'' (JStr ''daily'')" unfolding tfg ..
    show "tf = (if \<not> in_strs tf VALID_TIMEFRAMES then JStr ''daily'' else tf)"
      using ind(3) by simp
  qed (rule P_def M_def A_def)+
  have mx: "max 0 off = off" using ind(4) by simp
  have eq: "sanitize_operand B (JDict ?d) side =
      (if side = ''rhs'' then
                (case M of Inl e \<Rightarrow> Inl e
                 | Inr mult \<Rightarrow>
                     (case A of Inl e \<Rightarrow> Inl e
                      | Inr addo \<Rightarrow> Inr (Some (JDict (?base @ mult @ addo)))))
       else Inr (Some (JDict ?base)))"
    unfolding eq0 og py_int_def json.case sum.case Pv mx by simp
  show ?thesis
  proof (cases "side = ''rhs''")
    case False
    with ind(6) have "extra = []" by simp
    with eq False ind(1) show ?thesis by simp
  next
    case True
    with ind(6) obtain mult addo where e: "extra = mult @ addo"
      and m: "mult = [] \<or> (\<exists>f. mult = [(''multiplier'', JFloat f)])"
      and a: "addo = [] \<or> (\<exists>f. addo = [(''add_offset'', JFloat f)])" by auto
    from m a have "M = Inr mult"
      unfolding e M_def by (auto simp: dict_get_def py_float_def)
    moreover from m a have "A = Inr addo"
      unfolding e A_def by (auto simp: dict_get_def py_float_def)
    ultimately have "sanitize_operand B (JDict ?d) side = Inr (Some (JDict (?base @ mult @ addo)))"
      unfolding eq using True by simp
    with ind(1) e show ?thesis by simp
  qed
qed

lemma in_strs_iff: "in_strs v xs \<longleftrightarrow> (\<exists>s. v = JStr s \<and> s \<in> set xs)"
  by (auto simp: in_strs_def)

lemma gt_valid_operator: "''>'' \<in> set VALID_OPERATORS"
  by (simp add: VALID_OPERATORS_def)

lemma sanitize_condition_conformant:
  assumes "sanitize_condition B c = Inr (Some y)"
  shows "conformant_condition y"
proof -
  from assms obtain lhs where lhs: "map_of c ''lhs'' = Some lhs"
    by (cases "map_of c ''lhs''") (simp_all add: sanitize_condition_def)
  from assms lhs obtain rhs where rhs: "map_of c ''rhs'' = Some rhs"
    by (cases "map_of c ''rhs''") (simp_all add: sanitize_condition_def)
  from assms lhs rhs obtain sl where sl: "sanitize_operand B lhs ''lhs'' = Inr sl"
    by (cases "sanitize_operand B lhs ''lhs''") (simp_all add: sanitize_condition_def)
  from assms lhs rhs sl obtain sr where sr: "sanitize_operand B rhs ''rhs'' = Inr sr"
    by (cases "sanitize_operand B rhs ''rhs''") (simp_all add: sanitize_condition_def)
  from assms lhs rhs sl sr obtain l where l: "sl = Some l"
    by (cases sl) (simp_all add: sanitize_condition_def)
  from assms lhs rhs sl sr l obtain r where r: "sr = Some r"
    by (cases sr) (simp_all add: sanitize_condition_def)
  define op0 where "op0 = dict_get c ''operator'' (JStr ''>'')"
  define op where "op = (if \<not> in_strs op0 VALID_OPERATORS then JStr ''>'' else op0)"
  have y: "y = JDict ([(''lhs'', l), (''operator'', op), (''rhs'', r)]
                      @ (if op = JStr approx_op
                         then [(''tolerance'', dict_get c ''tolerance'' (JFloat (Finite 1 0)))]
                         else []))"
    using assms lhs rhs sl sr l r
    unfolding op_def op0_def sanitize_condition_def Let_def
    by (auto split del: if_split)
  have "in_strs op VALID_OPERATORS"
    using gt_valid_operator by (auto simp: op_def in_strs_def)
  then obtain s where s: "op = JStr s" "s \<in> set VALID_OPERATORS"
    by (auto simp: in_strs_iff)
  have cl: "conformant_operand ''lhs'' l"
    using sanitize_operand_conformant sl l by blast
  have cr: "conformant_operand ''rhs'' r"
    using sanitize_operand_conformant sr r by blast
  show ?thesis
    unfolding conformant_condition_def
    apply (rule exI[of _ l], rule exI[of _ s], rule exI[of _ r])
    apply (rule exI[of _ "(if op = JStr approx_op
                         then [(''tolerance'', dict_get c ''tolerance'' (JFloat (Finite 1 0)))]
                         else [])"])
    using y s cl cr by auto
qed

lemma conformant_condition_cases:
  assumes "conformant_condition y"
  obtains l operator r tol where
    "y = JDict ([(''lhs'', l), (''operator'', JStr operator), (''rhs'', r)] @ tol)"
    "conformant_operand ''lhs'' l" "conformant_operand ''rhs'' r"
    "operator \<in> set VALID_OPERATORS"
    "if operator = approx_op then \<exists>t. tol = [(''tolerance'', t)] else tol = []"
  using assms unfolding conformant_condition_def by blast

lemma validate_condition_conformant:
  assumes "conformant_condition y"
  shows "validate_condition B y i ws = Inr ((True, []), ws)"
  using assms
proof (cases rule: conformant_condition_cases)
  case (1 l operator r tol)
  have op: "in_strs (JStr operator) VALID_OPERATORS"
    using 1(4) by (simp add: in_strs_def)
  have tol: "\<not> (JStr operator = JStr approx_op \<and>
                map_of ([(''lhs'', l), (''operator'', JStr operator), (''rhs'', r)] @ tol) ''tolerance'' = None)"
    using 1(5) by (auto split: if_splits)
  show ?thesis
    unfolding 1(1) validate_condition_def
    using op tol validate_operand_conformant[OF 1(2), of B] validate_operand_conformant[OF 1(3), of B]
    by auto
qed

lemma sanitize_condition_fixed:
  assumes "conformant_condition y"
  shows "\<exists>d. y = JDict d \<and> sanitize_condition B d = Inr (Some y) \<and> truthy y"
  using assms
proof (cases rule: conformant_condition_cases)
  case (1 l operator r tol)
  let ?d = "[(''lhs'', l), (''operator'', JStr operator), (''rhs'', r)] @ tol"
  have op: "in_strs (JStr operator) VALID_OPERATORS"
    using 1(4) by (simp add: in_strs_def)
  have t: "(if JStr operator = JStr approx_op
            then [(''tolerance'', dict_get ?d ''tolerance'' (JFloat (Finite 1 0)))] else []) = tol"
    using 1(5) by (auto simp: dict_get_def split: if_splits)
  have "sanitize_condition B ?d = Inr (Some (JDict ?d))"
    unfolding sanitize_condition_def
    using op t sanitize_operand_fixed[OF 1(2), of B] sanitize_operand_fixed[OF 1(3), of B]
    by (simp add: dict_get_def Let_def split del: if_split)
  then show ?thesis using 1(1) by (simp add: truthy_def)
qed

section \<open>Sanitizing twice, and validating what was sanitized\<close>

lemma sanitize_conditions_step:
  "sanitize_conditions B (c # cs) acc =
     (case c of
        JDict d \<Rightarrow>
          (case sanitize_condition B d of
             Inl e \<Rightarrow> Inl e
           | Inr None \<Rightarrow> sanitize_conditions B cs acc
           | Inr (Some sc) \<Rightarrow>
               if truthy sc then sanitize_conditions B cs (acc @ [sc])
               else sanitize_conditions B cs acc)
      | _ \<Rightarrow> sanitize_conditions B cs acc)"
  by simp

lemma sanitize_conditions_conformant:
  assumes "sanitize_conditions B cs acc = Inr r" "\<forall>c\<in>set acc. conformant_condition c"
  shows "\<forall>c\<in>set r. conformant_condition c"
  using assms
proof (induction cs arbitrary: acc)
  case Nil
  then show ?case by simp
next
  case (Cons c cs)
  note step = sanitize_conditions_step[of B c cs acc]
  show ?case
  proof (cases "\<exists>d sc. c = JDict d \<and> sanitize_condition B d = Inr (Some sc) \<and> truthy sc")
    case True
    then obtain d sc where d: "c = JDict d" "sanitize_condition B d = Inr (Some sc)" "truthy sc"
      by blast
    have "conformant_condition sc" using d(2) by (rule sanitize_condition_conformant)
    then have acc: "\<forall>c\<in>set (acc @ [sc]). conformant_condition c"
      using Cons.prems(2) by simp
    have "sanitize_conditions B cs (acc @ [sc]) = Inr r"
      using Cons.prems(1) d by simp
    from Cons.IH[OF this acc] show ?thesis .
  next
    case False
    have "sanitize_conditions B cs acc = Inr r"
    proof (cases c)
      case (JDict d)
      show ?thesis
      proof (cases "sanitize_condition B d")
        case (Inl e)
        with Cons.prems(1) JDict show ?thesis by simp
      next
        case (Inr res)
        show ?thesis
        proof (cases res)
          case None
          with Cons.prems(1) Inr JDict show ?thesis by simp
        next
          case (Some sc)
          with False JDict Inr have "\<not> truthy sc" by simp
          with Cons.prems(1) Inr Some JDict show ?thesis by simp
        qed
      qed
    qed (use Cons.prems(1) in simp_all)
    from Cons.IH[OF this Cons.prems(2)] show ?thesis .
  qed
qed

lemma sanitize_conditions_fixed:
  assumes "\<forall>c\<in>set cs. conformant_condition c"
  shows "sanitize_conditions B cs acc = Inr (acc @ cs)"
  using assms
proof (induction cs arbitrary: acc)
  case Nil
  then show ?case by simp
next
  case (Cons c cs)
  from Cons.prems have cc: "conformant_condition c" and rest: "\<forall>c\<in>set cs. conformant_condition c"
    by simp_all
  from sanitize_condition_fixed[OF cc, of B] obtain d where
    d: "c = JDict d" "sanitize_condition B d = Inr (Some c)" "truthy c" by blast
  have "sanitize_conditions B (c # cs) acc = sanitize_conditions B cs (acc @ [c])"
    unfolding sanitize_conditions_step using d by (simp del: sanitize_conditions.simps)
  also have "\<dots> = Inr ((acc @ [c]) @ cs)" by (rule Cons.IH[OF rest])
  finally show ?case by simp
qed

lemma validate_conditions_conformant:
  assumes "\<forall>c\<in>set cs. conformant_condition c"
  shows "validate_conditions B cs i es ws = Inr (es, ws)"
  using assms
proof (induction cs arbitrary: i)
  case Nil
  then show ?case by simp
next
  case (Cons c cs)
  from Cons.prems have cc: "conformant_condition c" and rest: "\<forall>c\<in>set cs. conformant_condition c"
    by simp_all
  have "validate_conditions B (c # cs) i es ws = validate_conditions B cs (i + 1) es ws"
    by (simp add: validate_condition_conformant[OF cc])
  also have "\<dots> = Inr (es, ws)" by (rule Cons.IH[OF rest])
  finally show ?case .
qed

lemma py_strip_literals:
  "py_strip ''Invalid Strategy'' = ''Invalid Strategy''"
  "py_strip ''Unnamed Strategy'' = ''Unnamed Strategy''"
  by code_simp+

lemma sanitize_strategy_shape:
  assumes "sanitize_strategy B x = Inr y"
  obtains n dsc cs where
    "y = JDict [(''name'', JStr n), (''description'', dsc), (''conditions'', JList cs)]"
    "py_strip n = n" "\<forall>c\<in>set cs. conformant_condition c"
proof (cases x)
  case (JDict d)
  from assms JDict obtain s where s: "dict_get d ''name'' (JStr ''Unnamed Strategy'') = JStr s"
    by (cases "dict_get d ''name'' (JStr ''Unnamed Strategy'')") (simp_all add: sanitize_strategy_def)
  define conds where "conds = (case dict_get d ''conditions'' (JList []) of JList cs \<Rightarrow> cs | _ \<Rightarrow> [])"
  from assms JDict s obtain scs where scs: "sanitize_conditions B conds [] = Inr scs"
    by (cases "sanitize_conditions B conds []") (simp_all add: sanitize_strategy_def conds_def)
  from assms JDict s scs have y: "y = JDict [(''name'', JStr (py_strip s)),
        (''description'', dict_get d ''description'' (JStr [])), (''conditions'', JList scs)]"
    by (simp add: sanitize_strategy_def conds_def)
  from sanitize_conditions_conformant[OF scs] have "\<forall>c\<in>set scs. conformant_condition c" by simp
  with y that[of "py_strip s" _ scs] show thesis by (simp add: py_strip_idem)
next
  case JNone
  with assms that[of "''Invalid Strategy''" "JStr []" "[]"] show thesis
    by (simp add: sanitize_strategy_def py_strip_literals)
next
  case (JBool b)
  with assms that[of "''Invalid Strategy''" "JStr []" "[]"] show thesis
    by (simp add: sanitize_strategy_def py_strip_literals)
next
  case (JInt i)
  with assms that[of "''Invalid Strategy''" "JStr []" "[]"] show thesis
    by (simp add: sanitize_strategy_def py_strip_literals)
next
  case (JFloat f)
  with assms that[of "''Invalid Strategy''" "JStr []" "[]"] show thesis
    by (simp add: sanitize_strategy_def py_strip_literals)
next
  case (JStr s)
  with assms that[of "''Invalid Strategy''" "JStr []" "[]"] show thesis
    by (simp add: sanitize_strategy_def py_strip_literals)
next
  case (JList xs)
  with assms that[of "''Invalid Strategy''" "JStr []" "[]"] show thesis
    by (simp add: sanitize_strategy_def py_strip_literals)
qed

lemma sanitize_strategy_sanitized:
  assumes "py_strip n = n" "\<forall>c\<in>set cs. conformant_condition c"
  shows "sanitize_strategy B (JDict [(''name'', JStr n), (''description'', dsc),
                                     (''conditions'', JList cs)]) =
         Inr (JDict [(''name'', JStr n), (''description'', dsc), (''conditions'', JList cs)])"
  using assms sanitize_conditions_fixed[OF assms(2), of B "[]"]
  by (simp add: sanitize_strategy_def dict_get_def)

lemma validate_strategy_sanitized:
  assumes "py_strip n = n" "\<forall>c\<in>set cs. conformant_condition c"
  shows "validate_strategy B (JDict [(''name'', JStr n), (''description'', dsc),
                                     (''conditions'', JList cs)]) =
         Inr (n \<noteq> [] \<and> cs \<noteq> [],
              (if n = [] then ['''name' must be a non-empty string''] else [])
              @ (if cs = [] then ['''conditions' array cannot be empty''] else []),
              [])"
proof -
  have ne: "name_errors [(''name'', JStr n), (''description'', dsc), (''conditions'', JList cs)] =
          (if n = [] then ['''name' must be a non-empty string''] else [])"
    using assms(1) by (simp add: name_errors_def)
  show ?thesis
    unfolding validate_strategy_def
    using validate_conditions_conformant[OF assms(2), of B 0]
    by (auto simp: ne Let_def)
qed

text \<open>
  C3. Sanitizing what \<^verbatim>\<open>sanitize_strategy\<close> returned gives it back unchanged: the
  composition of \<^verbatim>\<open>sanitize_strategy\<close> with itself, in which an exception of the first
  call is the outcome, is \<^verbatim>\<open>sanitize_strategy\<close>.
\<close>

theorem sanitize_strategy_idempotent:
  "(case sanitize_strategy B x of Inl e \<Rightarrow> Inl e | Inr y \<Rightarrow> sanitize_strategy B y)
     = sanitize_strategy B x"
proof (cases "sanitize_strategy B x")
  case (Inl e)
  then show ?thesis by simp
next
  case (Inr y)
  then obtain n dsc cs where
    "y = JDict [(''name'', JStr n), (''description'', dsc), (''conditions'', JList cs)]"
    "py_strip n = n" "\<forall>c\<in>set cs. conformant_condition c"
    by (rule sanitize_strategy_shape)
  with Inr sanitize_strategy_sanitized[of n cs B dsc] show ?thesis by simp
qed

theorem sanitize_strategy_idempotent_witness:
  "sanitize_strategy example_builtins oversold_strategy = Inr sanitized_oversold_strategy
   \<and> sanitize_strategy example_builtins sanitized_oversold_strategy = Inr sanitized_oversold_strategy"
proof -
  have e: "sanitize_strategy example_builtins oversold_strategy = Inr sanitized_oversold_strategy"
    by code_simp
  with sanitize_strategy_idempotent[of example_builtins oversold_strategy] show ?thesis by simp
qed

text \<open>
  C1, as amended. Whenever \<^verbatim>\<open>sanitize_strategy\<close> returns a strategy whose name is not
  empty, validating it returns too, with no warning, and \<^verbatim>\<open>is_valid\<close> is true exactly
  when at least one condition is left.
\<close>

theorem validate_sanitized_strategy:
  assumes "sanitize_strategy B x = Inr y"
  shows "\<exists>n dsc cs.
           y = JDict [(''name'', JStr n), (''description'', dsc), (''conditions'', JList cs)]
           \<and> (n \<noteq> [] \<longrightarrow>
                validate_strategy B y =
                  Inr (cs \<noteq> [],
                       (if cs = [] then ['''conditions' array cannot be empty''] else []),
                       []))"
proof -
  from assms obtain n dsc cs where
    y: "y = JDict [(''name'', JStr n), (''description'', dsc), (''conditions'', JList cs)]"
    and "py_strip n = n" "\<forall>c\<in>set cs. conformant_condition c"
    by (rule sanitize_strategy_shape)
  with validate_strategy_sanitized[of n cs B dsc] show ?thesis by auto
qed

theorem validate_sanitized_strategy_witness:
  "sanitize_strategy example_builtins oversold_strategy = Inr sanitized_oversold_strategy
   \<and> validate_strategy example_builtins sanitized_oversold_strategy = Inr (True, [], [])"
proof -
  have e: "sanitize_strategy example_builtins oversold_strategy = Inr sanitized_oversold_strategy"
    by code_simp
  from validate_sanitized_strategy[OF e] obtain n dsc cs where
    y: "sanitized_oversold_strategy =
          JDict [(''name'', JStr n), (''description'', dsc), (''conditions'', JList cs)]"
    and v: "n \<noteq> [] \<longrightarrow>
            validate_strategy example_builtins sanitized_oversold_strategy =
               Inr (cs \<noteq> [],
                    (if cs = [] then ['''conditions' array cannot be empty''] else []),
                    [])"
    by blast
  from y have "n = ''Oversold''" "cs \<noteq> []"
    by (auto simp: sanitized_oversold_strategy_def)
  with v e show ?thesis by simp
qed

theorem sanitized_fallback_invalid_counterexample:
  "(case sanitize_strategy example_builtins JNone of Inl e \<Rightarrow> Inl e
    | Inr y \<Rightarrow> validate_strategy example_builtins y) =
   Inr (False, ['''conditions' array cannot be empty''], [])"
  by code_simp

section \<open>The sanitizer writes only to objects it has created\<close>

lemma unchanged_refl: "unchanged st st"
  by (simp add: unchanged_def)

lemma unchanged_length: "unchanged st0 st \<Longrightarrow> length st0 \<le> length st"
  by (simp add: unchanged_def)

lemma unchanged_nth:
  assumes "unchanged st0 st" "a < length st0"
  shows "st ! a = st0 ! a"
proof -
  from assms(1) have t: "take (length st0) st = st0" by (simp add: unchanged_def)
  have "take (length st0) st ! a = st ! a" using assms(2) by simp
  with t show ?thesis by simp
qed

lemma unchanged_alloc:
  "unchanged st0 st \<Longrightarrow> h_alloc st ob = (st1, r) \<Longrightarrow> unchanged st0 st1 \<and> new_ref st0 r \<and> r = VRef (length st) \<and> st1 = st @ [ob]"
  by (auto simp: unchanged_def h_alloc_def new_ref_def)

lemma unchanged_update:
  "unchanged st0 st \<Longrightarrow> length st0 \<le> a \<Longrightarrow> unchanged st0 (st[a := ob])"
  by (simp add: unchanged_def)

lemma unchanged_setitem:
  "unchanged st0 st \<Longrightarrow> new_ref st0 target \<Longrightarrow> unchanged st0 (h_setitem st target k v)"
  by (auto simp: h_setitem_def new_ref_def unchanged_update split: val.splits option.splits)

lemma unchanged_append:
  "unchanged st0 st \<Longrightarrow> new_ref st0 target \<Longrightarrow> unchanged st0 (h_append st target v)"
  by (auto simp: h_append_def new_ref_def unchanged_update split: val.splits option.splits)

lemma unchanged_trans:
  assumes "unchanged a b" "unchanged b c"
  shows "unchanged a c"
proof -
  from assms have l: "length a \<le> length b" "length b \<le> length c"
    and t: "take (length a) b = a" "take (length b) c = b" by (simp_all add: unchanged_def)
  have "take (length a) c = take (length a) (take (length b) c)"
    using l(1) by (simp add: min_def)
  also have "\<dots> = a" by (simp only: t)
  finally show ?thesis using l by (simp add: unchanged_def)
qed

lemma new_ref_mono: "new_ref st v \<Longrightarrow> length st0 \<le> length st \<Longrightarrow> new_ref st0 v"
  by (auto simp: new_ref_def split: val.splits)

lemma h_rhs_fields_unchanged:
  assumes "unchanged st0 st" "new_ref st0 sanitized"
    and "h_rhs_fields B st operand sanitized side = (st', r)"
  shows "unchanged st0 st'"
proof (cases "side = ''rhs''")
  case False
  with assms show ?thesis by (simp add: h_rhs_fields_def)
next
  case True
  define M where "M = (if map_of (h_fields st operand) ''multiplier'' \<noteq> None
               then (case py_float B (shallow (h_get (h_fields st operand) ''multiplier''
                                                 (VFloat (Finite 1 0)))) of
                       Inl e \<Rightarrow> Inl e
                     | Inr f \<Rightarrow> Inr (h_setitem st sanitized ''multiplier'' (VFloat f)))
               else Inr st)"
  show ?thesis
  proof (cases M)
    case (Inl e)
    with assms True show ?thesis by (simp add: h_rhs_fields_def M_def)
  next
    case (Inr st1)
    have u1: "unchanged st0 st1"
      using Inr assms(1,2)
      by (auto simp: M_def unchanged_setitem split: if_splits sum.splits)
    define A where "A = (if map_of (h_fields st1 operand) ''add_offset'' \<noteq> None
                    then (case py_float B (shallow (h_get (h_fields st1 operand) ''add_offset''
                                                      (VFloat (Finite 0 0)))) of
                            Inl e \<Rightarrow> Inl e
                          | Inr f \<Rightarrow> Inr (h_setitem st1 sanitized ''add_offset'' (VFloat f)))
                    else Inr st1)"
    have eq: "h_rhs_fields B st operand sanitized side =
                (case A of Inl e \<Rightarrow> (st1, Inl e) | Inr st2 \<Rightarrow> (st2, Inr sanitized))"
      using True Inr unfolding h_rhs_fields_def A_def M_def by simp
    show ?thesis
    proof (cases A)
      case (Inl e)
      with eq assms(3) u1 show ?thesis by simp
    next
      case r: (Inr st2)
      have "unchanged st0 st2"
        using r u1 assms(2)
        by (auto simp: A_def unchanged_setitem split: if_splits sum.splits)
      with eq r assms(3) show ?thesis by simp
    qed
  qed
qed

lemma unchanged_snoc: "unchanged st0 st \<Longrightarrow> unchanged st0 (st @ [ob])"
  by (simp add: unchanged_def)

lemma new_ref_length: "unchanged st0 st \<Longrightarrow> new_ref st0 (VRef (length st))"
  by (simp add: new_ref_def unchanged_def)

lemma sanitize_operand_h_unchanged:
  assumes u: "unchanged st0 st"
    and s: "sanitize_operand_h B R st operand side = (st', r)"
  shows "unchanged st0 st'"
proof (cases "h_dict st operand")
  case None
  with s u show ?thesis by (simp add: sanitize_operand_h_def)
next
  case (Some d)
  define op_type where "op_type = h_get d ''type'' (VStr ''indicator'')"
  consider (val) "op_type = VStr ''value''"
    | (ind) "op_type \<noteq> VStr ''value''" "op_type = VStr ''indicator''"
    | (other) "op_type \<noteq> VStr ''value''" "op_type \<noteq> VStr ''indicator''" by blast
  then show ?thesis
  proof cases
    case val
    define X where "X = (let v = h_get d ''value'' (VInt 0) in
              (if \<not> is_number (shallow v) then
                      (case py_float B (shallow v) of
                         Inr f \<Rightarrow> Inr (VFloat f)
                       | Inl e \<Rightarrow> if e = ValueError \<or> e = TypeError then Inr (VInt 0) else Inl e)
                    else Inr v))"
    have eq: "sanitize_operand_h B R st operand side =
        (case X of Inl e \<Rightarrow> (st, Inl e)
         | Inr x \<Rightarrow> (st @ [ODict [(''type'', VStr ''value''), (''value'', x)]], Inr (VRef (length st))))"
      using Some val unfolding sanitize_operand_h_def X_def op_type_def Let_def h_alloc_def prod.case
      by simp
    show ?thesis
      using s u unfolding eq by (cases X) (auto simp: unchanged_snoc)
  next
    case other
    with s u Some show ?thesis by (simp add: sanitize_operand_h_def op_type_def Let_def)
  next
    case ind
    define name0 where "name0 = py_lower B (h_str B R st (h_get d ''name'' (VStr ''close'')))"
    define name where "name = (if map_of VALID_INDICATORS name0 = None then ''close'' else name0)"
    define timeframe0 where "timeframe0 = h_get d ''timeframe'' (VStr ''daily'')"
    show ?thesis
    proof (cases "py_int B (shallow (h_get d ''offset'' (VInt 0)))")
      case (Inl e)
      with s u Some ind show ?thesis
        by (simp add: sanitize_operand_h_def op_type_def Let_def)
    next
      case (Inr off)
      define st1 where "st1 = st @ [ODict [(''type'', VStr ''indicator''), (''name'', VStr name),
                                          (''timeframe'', timeframe0),
                                          (''offset'', VInt (max 0 off))]]"
      define sanitized where "sanitized = VRef (length st)"
      define st2 where "st2 = (if \<not> in_strs (shallow timeframe0) VALID_TIMEFRAMES
                                  then h_setitem st1 sanitized ''timeframe'' (VStr ''daily'')
                                  else st1)"
      have n: "new_ref st0 sanitized" unfolding sanitized_def by (rule new_ref_length[OF u])
      have u1: "unchanged st0 st1" unfolding st1_def by (rule unchanged_snoc[OF u])
      have u2: "unchanged st0 st2" unfolding st2_def using u1 n by (simp add: unchanged_setitem)
      have eq: "sanitize_operand_h B R st operand side =
           (case map_of VALID_INDICATORS name of
                         None \<Rightarrow> (st2, Inl KeyError)
                       | Some None \<Rightarrow>
                                h_rhs_fields B (h_setitem (st2 @ [ODict []]) sanitized ''params''
                                                  (VRef (length st2)))
                                  operand sanitized side
                       | Some (Some default_period) \<Rightarrow>
                                (case h_dict (st2 @ [ODict []])
                                        (h_get (h_fields (st2 @ [ODict []]) operand) ''params''
                                           (VRef (length st2))) of
                                   None \<Rightarrow> (st2 @ [ODict []], Inl AttributeError)
                                 | Some params \<Rightarrow>
                                     (let period0 = h_get params ''period'' (VInt default_period);
                                          period =
                                            (if (case as_int (shallow period0) of
                                                   None \<Rightarrow> True | Some p \<Rightarrow> p < 1)
                                             then VInt default_period else period0)
                                      in
                                          h_rhs_fields B
                                            (h_setitem ((st2 @ [ODict []]) @ [ODict [(''period'', period)]])
                                               sanitized ''params''
                                               (VRef (length (st2 @ [ODict []]))))
                                            operand sanitized side)))"
        using Some ind Inr
        unfolding sanitize_operand_h_def op_type_def name0_def name_def timeframe0_def
          st1_def sanitized_def st2_def Let_def h_alloc_def prod.case
        by (simp split del: if_split)
      show ?thesis
      proof (cases "map_of VALID_INDICATORS name")
        case None
        with s eq u2 show ?thesis by simp
      next
        case cfg: (Some cfg)
        have u3: "unchanged st0 (st2 @ [ODict []])" by (rule unchanged_snoc[OF u2])
        show ?thesis
        proof (cases cfg)
          case None
          have "unchanged st0 (h_setitem (st2 @ [ODict []]) sanitized ''params'' (VRef (length st2)))"
            using u3 n by (rule unchanged_setitem)
          moreover have "h_rhs_fields B (h_setitem (st2 @ [ODict []]) sanitized ''params''
                                                  (VRef (length st2)))
                                  operand sanitized side = (st', r)"
            using s eq cfg None by simp
          ultimately show ?thesis using n by (blast intro: h_rhs_fields_unchanged)
        next
          case dp: (Some dp)
          show ?thesis
          proof (cases "h_dict (st2 @ [ODict []])
                                        (h_get (h_fields (st2 @ [ODict []]) operand) ''params''
                                           (VRef (length st2)))")
            case None
            with s eq cfg dp u3 show ?thesis by simp
          next
            case ps: (Some params)
            define period where "period = (let period0 = h_get params ''period'' (VInt dp) in
                                            (if (case as_int (shallow period0) of
                                                   None \<Rightarrow> True | Some p \<Rightarrow> p < 1)
                                             then VInt dp else period0))"
            have u4: "unchanged st0 ((st2 @ [ODict []]) @ [ODict [(''period'', period)]])"
              by (rule unchanged_snoc[OF u3])
            have "unchanged st0 (h_setitem ((st2 @ [ODict []]) @ [ODict [(''period'', period)]])
                                               sanitized ''params''
                                               (VRef (length (st2 @ [ODict []]))))"
              using u4 n by (rule unchanged_setitem)
            moreover have "h_rhs_fields B
                                            (h_setitem ((st2 @ [ODict []]) @ [ODict [(''period'', period)]])
                                               sanitized ''params''
                                               (VRef (length (st2 @ [ODict []]))))
                                            operand sanitized side = (st', r)"
              using s eq cfg dp ps unfolding period_def Let_def by simp
            ultimately show ?thesis using n by (blast intro: h_rhs_fields_unchanged)
          qed
        qed
      qed
    qed
  qed
qed

lemma sanitize_condition_h_unchanged:
  assumes u: "unchanged st0 st"
    and s: "sanitize_condition_h B R st condition = (st', r)"
  shows "unchanged st0 st'"
proof (cases "map_of (h_fields st condition) ''lhs'' = None
         \<or> map_of (h_fields st condition) ''rhs'' = None")
  case True
  with s u show ?thesis by (simp add: sanitize_condition_h_def)
next
  case False
  obtain st1 r1 where o1:
    "sanitize_operand_h B R st (h_get (h_fields st condition) ''lhs'' VNone) ''lhs'' = (st1, r1)"
    by (cases "sanitize_operand_h B R st (h_get (h_fields st condition) ''lhs'' VNone) ''lhs''")
  have u1: "unchanged st0 st1" by (rule sanitize_operand_h_unchanged[OF u o1])
  show ?thesis
  proof (cases r1)
    case (Inl e)
    with s False o1 u1 show ?thesis by (simp add: sanitize_condition_h_def)
  next
    case (Inr slhs)
    obtain st2 r2 where o2:
      "sanitize_operand_h B R st1 (h_get (h_fields st1 condition) ''rhs'' VNone) ''rhs'' = (st2, r2)"
      by (cases "sanitize_operand_h B R st1 (h_get (h_fields st1 condition) ''rhs'' VNone) ''rhs''")
    have u2: "unchanged st0 st2" by (rule sanitize_operand_h_unchanged[OF u1 o2])
    show ?thesis
    proof (cases r2)
      case (Inl e)
      with s False o1 Inr o2 u2 show ?thesis by (simp add: sanitize_condition_h_def Let_def)
    next
      case r: (Inr srhs)
      define operator0 where "operator0 = h_get (h_fields st1 condition) ''operator'' (VStr ''>'')"
      define st3 where "st3 = st2 @ [ODict [(''lhs'', slhs), (''operator'', operator0),
                                            (''rhs'', srhs)]]"
      define sanitized where "sanitized = VRef (length st2)"
      define st4 where "st4 = (if \<not> in_strs (shallow operator0) VALID_OPERATORS
                                     then h_setitem st3 sanitized ''operator'' (VStr ''>'')
                                     else st3)"
      define st5 where "st5 = (if h_get (h_fields st4 sanitized) ''operator'' VNone
                                          = VStr approx_op
                                     then h_setitem st4 sanitized ''tolerance''
                                            (h_get (h_fields st4 condition) ''tolerance''
                                               (VFloat (Finite 1 0)))
                                     else st4)"
      have n: "new_ref st0 sanitized" unfolding sanitized_def by (rule new_ref_length[OF u2])
      have u3: "unchanged st0 st3" unfolding st3_def by (rule unchanged_snoc[OF u2])
      have u4: "unchanged st0 st4" unfolding st4_def using u3 n by (simp add: unchanged_setitem)
      have u5: "unchanged st0 st5" unfolding st5_def using u4 n by (simp add: unchanged_setitem)
      have eq: "sanitize_condition_h B R st condition =
                  (if slhs = VNone \<or> srhs = VNone then (st3, Inr VNone) else (st5, Inr sanitized))"
      proof -
        have c: "(map_of (h_fields st condition) ''lhs'' = None
                   \<or> map_of (h_fields st condition) ''rhs'' = None) = False"
          using False by simp
        have o1': "sanitize_operand_h B R st (h_get (h_fields st condition) ''lhs'' VNone) ''lhs''
                     = (st1, Inr slhs)" using o1 Inr by simp
        have o2': "sanitize_operand_h B R st1 (h_get (h_fields st1 condition) ''rhs'' VNone) ''rhs''
                     = (st2, Inr srhs)" using o2 r by simp
        show ?thesis
          unfolding sanitize_condition_h_def c if_False o1' o2' prod.case sum.case
            st5_def st4_def st3_def sanitized_def operator0_def Let_def h_alloc_def
          by (rule refl)
      qed
      from s eq u3 u5 show ?thesis by (auto split: if_splits)
    qed
  qed
qed

lemma h_dict_unchanged:
  assumes "unchanged st st1" "h_dict st v = Some d"
  shows "h_dict st1 v = Some d"
proof -
  from assms(2) obtain a where a: "v = VRef a" "a < length st" "st ! a = ODict d"
    by (auto simp: h_dict_def split: val.splits if_splits obj.splits)
  from unchanged_nth[OF assms(1) a(2)] unchanged_length[OF assms(1)] a
  show ?thesis by (simp add: h_dict_def)
qed

lemma h_dict_append: "h_dict (h_append st t x) v = h_dict st v"
proof (cases "\<exists>a xs. t = VRef a \<and> h_list st t = Some xs")
  case False
  then show ?thesis by (auto simp: h_append_def split: val.splits option.splits)
next
  case True
  then obtain a xs where t: "t = VRef a" "h_list st t = Some xs" by blast
  then have a: "a < length st" "st ! a = OList xs"
    by (auto simp: h_list_def split: if_splits obj.splits)
  have ap: "h_append st t x = st[a := OList (xs @ [x])]"
    using t by (simp add: h_append_def)
  show ?thesis
  proof (cases v)
    case (VRef b)
    show ?thesis
    proof (cases "b = a")
      case True
      with VRef a ap show ?thesis by (simp add: h_dict_def)
    next
      case False
      with VRef a ap show ?thesis by (simp add: h_dict_def)
    qed
  qed (simp_all add: h_dict_def)
qed

lemma conditions_field_is_dict:
  assumes "h_get (h_fields st sanitized) ''conditions'' VNone = VRef l"
  obtains d where "h_dict st sanitized = Some d"
  using assms by (cases "h_dict st sanitized") (simp_all add: h_fields_def h_get_def)

lemma conditions_field_unchanged:
  assumes "unchanged st st1" "h_get (h_fields st sanitized) ''conditions'' VNone = VRef l"
  shows "h_get (h_fields st1 sanitized) ''conditions'' VNone = VRef l"
proof -
  from assms(2) obtain d where d: "h_dict st sanitized = Some d"
    by (rule conditions_field_is_dict)
  from h_dict_unchanged[OF assms(1) d] d assms(2) show ?thesis by (simp add: h_fields_def)
qed

lemma sanitize_loop_h_unchanged:
  assumes "unchanged st0 st"
    and "h_get (h_fields st sanitized) ''conditions'' VNone = VRef l" "length st0 \<le> l"
    and "sanitize_loop_h B R n i st conditions sanitized = (st', r)"
  shows "unchanged st0 st' \<and> h_get (h_fields st' sanitized) ''conditions'' VNone = VRef l"
  using assms
proof (induction n arbitrary: i st)
  case 0
  then show ?case by simp
next
  case (Suc n)
  note u = Suc.prems(1) and inv = Suc.prems(2) and l = Suc.prems(3) and run = Suc.prems(4)
  show ?case
  proof (cases "h_list st conditions")
    case None
    with run u inv show ?thesis by simp
  next
    case (Some xs)
    show ?thesis
    proof (cases "i < length xs")
      case False
      with run Some u inv show ?thesis by simp
    next
      case True
      show ?thesis
      proof (cases "h_dict st (xs ! i)")
        case None
        with run Some True have "sanitize_loop_h B R n (i + 1) st conditions sanitized = (st', r)"
          by simp
        from Suc.IH[OF u inv l this] show ?thesis .
      next
        case c: (Some c)
        obtain st1 r1 where b: "sanitize_condition_h B R st (xs ! i) = (st1, r1)"
          by (cases "sanitize_condition_h B R st (xs ! i)")
        have u1: "unchanged st0 st1" by (rule sanitize_condition_h_unchanged[OF u b])
        have "unchanged st st1" by (rule sanitize_condition_h_unchanged[OF unchanged_refl b])
        then have inv1: "h_get (h_fields st1 sanitized) ''conditions'' VNone = VRef l"
          using inv by (rule conditions_field_unchanged)
        show ?thesis
        proof (cases r1)
          case (Inl e)
          with run Some True c b u1 inv1 show ?thesis by simp
        next
          case (Inr sc)
          show ?thesis
          proof (cases "h_truthy st1 sc")
            case False
            with run Some True c b Inr
            have "sanitize_loop_h B R n (i + 1) st1 conditions sanitized = (st', r)" by simp
            from Suc.IH[OF u1 inv1 l this] show ?thesis .
          next
            case t: True
            let ?st2 = "h_append st1 (VRef l) sc"
            from run Some True c b Inr t inv1
            have r2: "sanitize_loop_h B R n (i + 1) ?st2 conditions sanitized = (st', r)" by simp
            have u2: "unchanged st0 ?st2"
              using u1 l by (intro unchanged_append) (simp_all add: new_ref_def)
            have inv2: "h_get (h_fields ?st2 sanitized) ''conditions'' VNone = VRef l"
              using inv1 by (simp add: h_fields_def h_dict_append)
            from Suc.IH[OF u2 inv2 l r2] show ?thesis .
          qed
        qed
      qed
    qed
  qed
qed

lemma sanitize_strategy_h_frame:
  assumes s: "sanitize_strategy_h B R st strategy = (st', r)"
  shows "unchanged st st' \<and> (\<forall>y. r = Inr y \<longrightarrow> new_ref st y \<and> h_dict st' y \<noteq> None)"
proof (cases "h_dict st strategy")
  case None
  with s show ?thesis
    by (auto simp: sanitize_strategy_h_def h_alloc_def unchanged_def new_ref_def h_dict_def
          nth_append)
next
  case (Some d)
  show ?thesis
  proof (cases "\<exists>n. h_get d ''name'' (VStr ''Unnamed Strategy'') = VStr n")
    case False
    with s Some show ?thesis
      by (cases "h_get d ''name'' (VStr ''Unnamed Strategy'')")
         (auto simp: sanitize_strategy_h_def unchanged_refl)
  next
    case True
    then obtain n where n: "h_get d ''name'' (VStr ''Unnamed Strategy'') = VStr n" by blast
    define st1 where "st1 = st @ [OList []]"
    define st2 where "st2 = st1 @ [ODict [(''name'', VStr (py_strip n)),
                                         (''description'', h_get d ''description'' (VStr [])),
                                         (''conditions'', VRef (length st))]]"
    define sanitized where "sanitized = VRef (length st1)"
    define st3 where "st3 = st2 @ [OList []]"
    define cv where "cv = h_get (h_fields st3 strategy) ''conditions'' (VRef (length st2))"
    define st4 where "st4 = (case h_list st3 cv of Some xs \<Rightarrow> st3 | None \<Rightarrow> st3 @ [OList []])"
    define conditions where
      "conditions = (case h_list st3 cv of Some xs \<Rightarrow> cv | None \<Rightarrow> VRef (length st3))"
    define fuel where "fuel = (case h_list st4 conditions of Some xs \<Rightarrow> length xs | None \<Rightarrow> 0)"
    have alloc4: "(case h_list st3 cv of
                        Some xs \<Rightarrow> (st3, cv)
                      | None \<Rightarrow> h_alloc st3 (OList [])) = (st4, conditions)"
      by (cases "h_list st3 cv") (simp_all add: st4_def conditions_def h_alloc_def)
    have eq: "sanitize_strategy_h B R st strategy =
                (case sanitize_loop_h B R fuel 0 st4 conditions sanitized of
                   (st5, Inl e) \<Rightarrow> (st5, Inl e)
                 | (st5, Inr u) \<Rightarrow> (st5, Inr sanitized))"
      unfolding sanitize_strategy_h_def Some option.case n val.case h_alloc_def prod.case
        st1_def[symmetric] st2_def[symmetric] sanitized_def[symmetric] st3_def[symmetric]
        cv_def[symmetric]
      unfolding alloc4[unfolded h_alloc_def] prod.case fuel_def
      by (rule refl)
    have u1: "unchanged st st1" unfolding st1_def by (rule unchanged_snoc[OF unchanged_refl])
    have u2: "unchanged st st2" unfolding st2_def by (rule unchanged_snoc[OF u1])
    have u3: "unchanged st st3" unfolding st3_def by (rule unchanged_snoc[OF u2])
    have u4: "unchanged st st4"
      unfolding st4_def using u3 by (cases "h_list st3 cv") (simp_all add: unchanged_snoc)
    have d2: "h_dict st2 sanitized = Some [(''name'', VStr (py_strip n)),
                                         (''description'', h_get d ''description'' (VStr [])),
                                         (''conditions'', VRef (length st))]"
      by (simp add: st2_def sanitized_def h_dict_def)
    have "unchanged st2 st4"
      unfolding st4_def st3_def
      by (cases "h_list (st2 @ [OList []]) cv") (simp_all add: unchanged_def)
    from h_dict_unchanged[OF this d2]
    have inv: "h_get (h_fields st4 sanitized) ''conditions'' VNone = VRef (length st)"
      by (simp add: h_fields_def h_get_def)
    have nr: "new_ref st sanitized" by (simp add: sanitized_def st1_def new_ref_def)
    obtain st5 r5 where run: "sanitize_loop_h B R fuel 0 st4 conditions sanitized = (st5, r5)"
      by (cases "sanitize_loop_h B R fuel 0 st4 conditions sanitized")
    from sanitize_loop_h_unchanged[OF u4 inv _ run]
    have u5: "unchanged st st5"
      and inv5: "h_get (h_fields st5 sanitized) ''conditions'' VNone = VRef (length st)"
      by simp_all
    from inv5 obtain d5 where d5: "h_dict st5 sanitized = Some d5"
      by (rule conditions_field_is_dict)
    from s eq run have "st' = st5" "r = (case r5 of Inl e \<Rightarrow> Inl e | Inr u \<Rightarrow> Inr sanitized)"
      by (cases r5; simp)+
    with u5 d5 nr show ?thesis by (cases r5) auto
  qed
qed

text \<open>
  C9. \<^verbatim>\<open>sanitize_strategy\<close> does not mutate its input: whether it returns or raises,
  every object that was in the store before the call, so everything reachable from the
  input, is the same object after it. What it returns is a reference to a dictionary that
  it has created.
\<close>

theorem sanitize_strategy_leaves_input_unchanged:
  assumes "sanitize_strategy_h B R st strategy = (st', r)"
  shows "length st \<le> length st'
         \<and> (\<forall>a<length st. st' ! a = st ! a)
         \<and> (\<forall>y. r = Inr y \<longrightarrow> new_ref st y \<and> h_dict st' y \<noteq> None)"
proof -
  from sanitize_strategy_h_frame[OF assms]
  have u: "unchanged st st'"
    and f: "\<forall>y. r = Inr y \<longrightarrow> new_ref st y \<and> h_dict st' y \<noteq> None" by simp_all
  from u have "length st \<le> length st'" by (rule unchanged_length)
  moreover from u have "\<forall>a<length st. st' ! a = st ! a" by (simp add: unchanged_nth)
  ultimately show ?thesis using f by simp
qed

theorem sanitize_strategy_leaves_input_unchanged_witness:
  "take 6 (fst (sanitize_strategy_h example_builtins example_repr example_store (VRef 5)))
     = example_store
   \<and> snd (sanitize_strategy_h example_builtins example_repr example_store (VRef 5))
     = Inr (VRef 7)
   \<and> h_dict (fst (sanitize_strategy_h example_builtins example_repr example_store (VRef 5)))
        (VRef 7)
     = Some [(''name'', VStr ''Oversold''), (''description'', VRef 4), (''conditions'', VRef 6)]"
proof -
  let ?X = "sanitize_strategy_h example_builtins example_repr example_store (VRef 5)"
  have e: "?X = (fst ?X, snd ?X)" by simp
  from sanitize_strategy_leaves_input_unchanged[OF e]
  have l: "length example_store \<le> length (fst ?X)"
    and n: "\<forall>a<length example_store. fst ?X ! a = example_store ! a" by simp_all
  have six: "length example_store = 6" by (simp add: example_store_def)
  have "take (length example_store) (fst ?X) = example_store"
    by (rule nth_equalityI) (use l n in auto)
  then have t: "take 6 (fst ?X) = example_store" by (simp only: six)
  have r: "snd ?X = Inr (VRef 7)" by code_simp
  have d: "h_dict (fst ?X) (VRef 7)
     = Some [(''name'', VStr ''Oversold''), (''description'', VRef 4), (''conditions'', VRef 6)]"
    by code_simp
  from t r d show ?thesis by simp
qed

end
